theory Spec2Isabelle
  imports Main "HOL-Library.Sublist"
begin

section \<open>Steps and JavaScript values\<close>

text \<open>
  A recorded step is a plain JavaScript object. The properties the recorder may leave out
  (\<open>action\<close> on scripts saved before clicks existed, \<open>type\<close> and \<open>value\<close> on click
  steps) are optional here. The \<open>value\<close> of a step is a string, a boolean (checkboxes) or
  absent; \<open>===\<close> on these primitives is equality of the datatype.
\<close>

datatype jsvalue = JUndefined | JBool bool | JStr string

record step =
  order :: int
  action :: "string option"
  selector :: string
  step_value :: jsvalue
  step_type :: "string option"
  label :: string
  fragile :: bool

text \<open>The exceptions of the JavaScript runtime that the code can run into.\<close>

datatype js_error = SyntaxError | TypeError

section \<open>Replay coordinator (service worker)\<close>

text \<open>
  The accumulated result report \<open>pendingReplayResults\<close> starts as a copy of the results
  object of a \<open>REPLAY_FINISHED\<close> message (\<open>{ ...(msg.results || {}) }\<close>), so each of its
  properties may be absent. The field \<open>results\<close> of a session is set to null when the
  session is created and is not written again.
\<close>

record report =
  p_filled :: "nat option"
  p_clicked :: "nat option"
  p_skipped :: "nat option"
  p_warnings :: "string list option"
  p_lastIndex :: "nat option"
  p_aborted :: "bool option"

record replay_session =
  tabId :: nat
  steps :: "step list option"
  lastCompletedIndex :: int
  results :: "report option"
  originHostname :: string

record coordinator =
  replayState :: "replay_session option"
  pendingReplayResults :: "report option"

text \<open>
  What \<open>new URL(url).hostname\<close> gives for the url of a tab: the url is missing or empty,
  the constructor throws, or there is a hostname.
\<close>

datatype url_outcome = NoUrl | BadUrl | Hostname string

text \<open>The object literal \<open>{ filled: 0, clicked: 0, skipped: 0, warnings: [] }\<close>.\<close>

definition emptyReport :: report where
  "emptyReport = \<lparr>p_filled = Some 0, p_clicked = Some 0, p_skipped = Some 0,
     p_warnings = Some [], p_lastIndex = None, p_aborted = None\<rparr>"

definition emDash :: string where
  "emDash = [CHR 0xE2, CHR 0x80, CHR 0x94]"

definition abortWarning :: "string \<Rightarrow> string" where
  "abortWarning newHostname =
     ''Cross-domain navigation to '' @ newHostname @ '' '' @ emDash @ '' replay aborted''"

text \<open>The values the \<open>setTimeout\<close> callback of the navigation listener closes over.\<close>

record continuation =
  k_tabId :: nat
  k_steps :: "step list"
  k_startIndex :: int

text \<open>The handler of \<open>REPLAY_STARTED\<close>; \<open>sender\<close> is \<open>sender.tab\<close> when there is one.\<close>

definition onReplayStarted :: "(nat \<times> url_outcome) option \<Rightarrow> step list option \<Rightarrow> coordinator \<Rightarrow> coordinator" where
  "onReplayStarted sender flds c =
     (case sender of
        None \<Rightarrow> c
      | Some (tid, url) \<Rightarrow>
          (case url of
             BadUrl \<Rightarrow> c\<lparr>replayState := None\<rparr>
           | NoUrl \<Rightarrow> c\<lparr>replayState := Some \<lparr>tabId = tid, steps = flds,
               lastCompletedIndex = -1, results = None, originHostname = ''''\<rparr>\<rparr>
           | Hostname h \<Rightarrow> c\<lparr>replayState := Some \<lparr>tabId = tid, steps = flds,
               lastCompletedIndex = -1, results = None, originHostname = h\<rparr>\<rparr>))"

text \<open>The handler of \<open>REPLAY_PROGRESS\<close>.\<close>

definition onReplayProgress :: "int \<Rightarrow> coordinator \<Rightarrow> coordinator" where
  "onReplayProgress idx c =
     (case replayState c of
        None \<Rightarrow> c
      | Some rs \<Rightarrow> c\<lparr>replayState := Some (rs\<lparr>lastCompletedIndex := idx\<rparr>)\<rparr>)"

text \<open>\<open>pendingReplayResults || { filled: 0, clicked: 0, skipped: 0, warnings: [] }\<close>.\<close>

definition reportOrEmpty :: "report option \<Rightarrow> report" where
  "reportOrEmpty p = (case p of None \<Rightarrow> emptyReport | Some r \<Rightarrow> r)"

text \<open>
  The \<open>chrome.tabs.onUpdated\<close> listener, up to the point where it arms the timer. It
  returns the new coordinator state and, when it arms the timer, what the callback will
  use. A \<open>push\<close> on a report without a \<open>warnings\<close> array throws inside the \<open>try\<close>, after
  \<open>aborted\<close> was set, and the \<open>catch\<close> clears the session.
\<close>

definition onUpdated :: "nat \<Rightarrow> string option \<Rightarrow> url_outcome \<Rightarrow> coordinator \<Rightarrow> coordinator \<times> continuation option" where
  "onUpdated tid status url c =
     (case replayState c of
        None \<Rightarrow> (c, None)
      | Some rs \<Rightarrow>
          if tid \<noteq> tabId rs then (c, None)
          else if status \<noteq> Some ''complete'' then (c, None)
          else
            (case steps rs of
               None \<Rightarrow> (c, None)
             | Some stps \<Rightarrow>
                 let lastIdx = lastCompletedIndex rs in
                 if lastIdx < 0 then (c, None)
                 else
                   (case url of
                      Hostname newHostname \<Rightarrow>
                        if newHostname \<noteq> originHostname rs then
                          let p = (reportOrEmpty (pendingReplayResults c))\<lparr>p_aborted := Some True\<rparr>
                          in (case p_warnings p of
                                None \<Rightarrow> (c\<lparr>replayState := None, pendingReplayResults := Some p\<rparr>, None)
                              | Some ws \<Rightarrow>
                                  (c\<lparr>replayState := None,
                                     pendingReplayResults :=
                                       Some (p\<lparr>p_warnings := Some (ws @ [abortWarning newHostname])\<rparr>)\<rparr>,
                                   None))
                        else
                          let startIndex = lastIdx + 1 in
                          if startIndex \<ge> int (length stps) then (c\<lparr>replayState := None\<rparr>, None)
                          else
                            (c\<lparr>pendingReplayResults := Some (reportOrEmpty (pendingReplayResults c))\<rparr>,
                             Some \<lparr>k_tabId = tid, k_steps = stps, k_startIndex = startIndex\<rparr>)
                    | _ \<Rightarrow> (c\<lparr>replayState := None\<rparr>, None))))"

text \<open>
  The timer callback: a \<open>PING\<close> to the tab; when \<open>chrome.runtime.lastError\<close> is set the
  content scripts are injected first, and a failed injection clears the session.
\<close>

datatype coord_effect =
    SendPing nat
  | ExecuteScript nat "string list"
  | SendContinueReplay nat "step list" int

definition continueReplay :: "bool \<Rightarrow> bool \<Rightarrow> continuation \<Rightarrow> coordinator \<Rightarrow> coordinator \<times> coord_effect list" where
  "continueReplay lastError injected k c =
     (if lastError then
        (if injected then
           (c, [SendPing (k_tabId k),
                ExecuteScript (k_tabId k) [''services/recorder.js'', ''content.js''],
                SendContinueReplay (k_tabId k) (k_steps k) (k_startIndex k)])
         else
           (c\<lparr>replayState := None\<rparr>,
            [SendPing (k_tabId k),
             ExecuteScript (k_tabId k) [''services/recorder.js'', ''content.js'']]))
      else
        (c, [SendPing (k_tabId k), SendContinueReplay (k_tabId k) (k_steps k) (k_startIndex k)]))"

text \<open>The \<open>CONTINUE_REPLAY\<close> messages among the calls of the timer callback.\<close>

fun continueMessages :: "coord_effect list \<Rightarrow> (nat \<times> step list \<times> int) list" where
  "continueMessages [] = []"
| "continueMessages (SendContinueReplay t stps i # es) = (t, stps, i) # continueMessages es"
| "continueMessages (e # es) = continueMessages es"

text \<open>
  A replay of ten click steps in tab 7 on \<open>a.com\<close>: the session as \<open>REPLAY_STARTED\<close>
  leaves it, and the session after progress was reported for index 4.
\<close>

definition tenSteps :: "step list" where
  "tenSteps = map (\<lambda>n. \<lparr>order = int n, action = Some ''click'', selector = ''#next'',
     step_value = JUndefined, step_type = None, label = ''Next'', fragile = False\<rparr>) [1..<11]"

definition idleCoordinator :: coordinator where
  "idleCoordinator = \<lparr>replayState = None, pendingReplayResults = None\<rparr>"

definition startedCoordinator :: coordinator where
  "startedCoordinator = onReplayStarted (Some (7, Hostname ''a.com'')) (Some tenSteps) idleCoordinator"

definition progressedCoordinator :: coordinator where
  "progressedCoordinator = onReplayProgress 4 startedCoordinator"

section \<open>Replay engine (content script)\<close>

text \<open>
  The engine talks to the page and to the coordinator; the model logs each of these calls,
  in order. An element is known by a number. What the page answers (whether
  \<open>waitForElement\<close> resolves to an element, what \<open>el.checked\<close> reads) may depend on
  everything done so far, so the answers are functions of the log.
\<close>

type_synonym elem = nat

datatype effect =
    WaitForElement string nat
  | SendReplayProgress nat
  | Click elem
  | SetChecked elem jsvalue
  | SetValue elem jsvalue
  | NativeSetValue elem jsvalue
  | DispatchEvent elem string bool
  | WaitForDomSettle nat

text \<open>
  \<open>hasNativeSetter\<close>: \<open>HTMLInputElement.prototype\<close> (or else
  \<open>HTMLTextAreaElement.prototype\<close>) has a \<open>value\<close> property with a setter, as it has in
  every browser; that setter is the one of \<open>HTMLInputElement\<close>, and called on an element
  that is not an \<open>input\<close> it throws a \<open>TypeError\<close>. \<open>hasClickMethod\<close>: the element is an
  \<open>HTMLElement\<close>; on any other element \<open>el.click\<close> is undefined and the call throws.
\<close>

text \<open>
  What \<open>await waitForElement(selector, 3000)\<close> gives: the element, null after the timeout,
  or an exception, when the promise is rejected (\<open>document.querySelector\<close> throws a
  \<open>SyntaxError\<close> on a string that is not a valid selector, and \<open>observer.observe\<close> a
  \<open>TypeError\<close> when \<open>document.body\<close> is null).
\<close>

datatype wait_outcome = Found elem | NotFound | WaitRejects js_error

record page =
  waitResult :: "effect list \<Rightarrow> wait_outcome"
  checkedOf :: "effect list \<Rightarrow> elem \<Rightarrow> jsvalue"
  hasNativeSetter :: bool
  isInputElement :: "elem \<Rightarrow> bool"
  hasClickMethod :: "elem \<Rightarrow> bool"

record replay_results =
  filled :: nat
  clicked :: nat
  skipped :: nat
  warnings :: "string list"
  lastIndex :: nat

text \<open>
  \<open>setValue(el, value, type)\<close>: the calls it makes on the element, given the log \<open>tr\<close>
  at the moment of the call, or the exception it throws before making any.
\<close>

definition setValue :: "page \<Rightarrow> effect list \<Rightarrow> elem \<Rightarrow> jsvalue \<Rightarrow> string option \<Rightarrow> js_error + effect list" where
  "setValue pg tr el v ty =
     (if ty = Some ''checkbox'' then
        (if checkedOf pg tr el \<noteq> v then
           Inr [SetChecked el v, DispatchEvent el ''change'' True, DispatchEvent el ''input'' True]
         else Inr [])
      else if ty = Some ''radio'' then
        Inr [SetChecked el (JBool True), DispatchEvent el ''change'' True, DispatchEvent el ''input'' True]
      else if ty = Some ''select'' then
        Inr [SetValue el v, DispatchEvent el ''change'' True, DispatchEvent el ''input'' True]
      else if hasNativeSetter pg then
        (if isInputElement pg el then
           Inr [NativeSetValue el v, DispatchEvent el ''input'' True, DispatchEvent el ''change'' True]
         else Inl TypeError)
      else
        Inr [SetValue el v, DispatchEvent el ''input'' True, DispatchEvent el ''change'' True])"

text \<open>\<open>step.action || 'fill'\<close>: a missing or empty action counts as a fill.\<close>

definition stepAction :: "step \<Rightarrow> string" where
  "stepAction stp = (case action stp of None \<Rightarrow> ''fill'' | Some a \<Rightarrow> if a = [] then ''fill'' else a)"

definition skipWarning :: "step \<Rightarrow> string" where
  "skipWarning stp = selector stp @ '' ('' @ label stp @ '')''"

text \<open>
  A run of the engine is in a state of results and log. It ends by returning its results,
  or by an exception, which loses the results; the log of what was done stays either way.
\<close>

type_synonym replay_state = "replay_results \<times> effect list"

type_synonym replay_outcome = "(js_error \<times> effect list) + replay_state"

definition logOf :: "replay_outcome \<Rightarrow> effect list" where
  "logOf r = (case r of Inl (err, tr) \<Rightarrow> tr | Inr (res, tr) \<Rightarrow> tr)"

text \<open>One pass through the body of the \<open>for\<close> loop of \<open>replayScript\<close>, at index \<open>i\<close>.\<close>

definition replayStep :: "page \<Rightarrow> step \<Rightarrow> nat \<Rightarrow> replay_state \<Rightarrow> replay_outcome" where
  "replayStep pg stp i s =
     (let res = fst s;
          tr = snd s @ [WaitForElement (selector stp) 3000]
      in case waitResult pg tr of
           WaitRejects err \<Rightarrow> Inl (err, tr)
         | NotFound \<Rightarrow>
             Inr (res\<lparr>skipped := skipped res + 1,
                      warnings := warnings res @ [skipWarning stp],
                      lastIndex := i\<rparr>, tr)
         | Found el \<Rightarrow>
             if stepAction stp = ''click'' then
               (if hasClickMethod pg el then
                  Inr (res\<lparr>clicked := clicked res + 1, lastIndex := i\<rparr>,
                       tr @ [SendReplayProgress i, Click el, WaitForDomSettle 300])
                else Inl (TypeError, tr @ [SendReplayProgress i]))
             else
               (case setValue pg tr el (step_value stp) (step_type stp) of
                  Inl err \<Rightarrow> Inl (err, tr)
                | Inr calls \<Rightarrow>
                    Inr (res\<lparr>filled := filled res + 1, lastIndex := i\<rparr>,
                         tr @ calls @ [WaitForDomSettle 150])))"

function replayLoop :: "page \<Rightarrow> step list \<Rightarrow> nat \<Rightarrow> replay_state \<Rightarrow> replay_outcome" where
  "replayLoop pg sortedFields i s =
     (if i < length sortedFields then
        (case replayStep pg (sortedFields ! i) i s of
           Inl thrown \<Rightarrow> Inl thrown
         | Inr s' \<Rightarrow> replayLoop pg sortedFields (Suc i) s')
      else Inr s)"
  by pat_completeness auto
termination
  by (relation "measure (\<lambda>(pg, sortedFields, i, s). length sortedFields - i)") auto

definition initialResults :: "nat \<Rightarrow> replay_results" where
  "initialResults startIndex =
     \<lparr>filled = 0, clicked = 0, skipped = 0, warnings = [], lastIndex = startIndex\<rparr>"

text \<open>
  \<open>replayScript(fields, startIndex)\<close> on the contents of the array: the copy is sorted by
  \<open>order\<close> (a stable sort, as \<open>Array.prototype.sort\<close> is) and the loop runs on the copy.
\<close>

definition replayScript :: "page \<Rightarrow> step list \<Rightarrow> nat \<Rightarrow> replay_outcome" where
  "replayScript pg flds startIndex =
     replayLoop pg (sort_key order flds) startIndex (initialResults startIndex, [])"

text \<open>
  The same call against a store: arrays hold references to step objects, \<open>[...fields]\<close>
  allocates a new array, and \<open>sort\<close> sorts that array in place.
\<close>

record store =
  arrays :: "nat \<Rightarrow> nat list"
  nextArray :: nat
  objects :: "nat \<Rightarrow> step"

definition spreadCopy :: "nat \<Rightarrow> store \<Rightarrow> nat \<times> store" where
  "spreadCopy src h =
     (nextArray h, h\<lparr>arrays := (arrays h)(nextArray h := arrays h src), nextArray := Suc (nextArray h)\<rparr>)"

definition sortInPlace :: "nat \<Rightarrow> store \<Rightarrow> store" where
  "sortInPlace a h = h\<lparr>arrays := (arrays h)(a := sort_key (\<lambda>r. order (objects h r)) (arrays h a))\<rparr>"

definition replayScriptStore :: "page \<Rightarrow> store \<Rightarrow> nat \<Rightarrow> nat \<Rightarrow> replay_outcome \<times> store" where
  "replayScriptStore pg h fieldsRef startIndex =
     (let (sortedRef, h1) = spreadCopy fieldsRef h;
          h2 = sortInPlace sortedRef h1
      in (replayLoop pg (map (objects h2) (arrays h2 sortedRef)) startIndex
            (initialResults startIndex, []), h2))"

text \<open>
  The content script's handler of \<open>CONTINUE_REPLAY\<close>, given the tab, the fields and the
  start index of the message: \<open>replayScript(msg.fields, msg.startIndex)\<close>. With a negative
  start index the first pass of the loop reads \<open>sorted[startIndex]\<close>, which is undefined,
  and \<open>step.action\<close> throws before anything is done to the page.
\<close>

definition onContinueReplay :: "page \<Rightarrow> nat \<times> step list \<times> int \<Rightarrow> replay_outcome" where
  "onContinueReplay pg msg =
     (case msg of (t, flds, startIndex) \<Rightarrow>
        if startIndex < 0 then Inl (TypeError, [])
        else replayScript pg flds (nat startIndex))"

subsection \<open>Waiting for an element\<close>

text \<open>
  \<open>waitForElement\<close> is driven by the event loop. Its state is the observer (connected or
  not), the timer (armed or not), the flag \<open>resolved\<close>, the promise (pending, resolved
  with an element or with null, or rejected with an exception) and the number of
  \<open>querySelector\<close> calls made. The page produces two kinds of events: a mutation that the
  observer is subscribed to (child-list changes below \<open>body\<close>), carrying what
  \<open>querySelector\<close> finds at that moment, and the expiry of the timeout.
\<close>

datatype settlement = Resolved "elem option" | Rejected js_error

record wait_state =
  observing :: bool
  timerArmed :: bool
  resolved :: bool
  settled :: "settlement option"
  queries :: nat

datatype wait_event = Mutation "elem option" | TimerFires

text \<open>Resolving a promise that is already settled changes nothing.\<close>

definition resolvePromise :: "elem option \<Rightarrow> wait_state \<Rightarrow> wait_state" where
  "resolvePromise v s = (case settled s of None \<Rightarrow> s\<lparr>settled := Some (Resolved v)\<rparr> | Some _ \<Rightarrow> s)"

text \<open>
  The executor of the promise, given what the first \<open>document.querySelector(selector)\<close>
  does (it throws on a string that is not a valid selector, or gives an element or null)
  and whether \<open>document.body\<close> is an element. An exception in the executor rejects the
  promise: on an invalid selector before the observer exists, and on a missing body in
  \<open>observer.observe\<close>, which leaves the observer unconnected and the timer unarmed.
\<close>

definition waitForElement :: "js_error + elem option \<Rightarrow> bool \<Rightarrow> wait_state" where
  "waitForElement q hasBody =
     (case q of
        Inl err \<Rightarrow> \<lparr>observing = False, timerArmed = False, resolved = False,
                    settled = Some (Rejected err), queries = 1\<rparr>
      | Inr (Some el) \<Rightarrow> \<lparr>observing = False, timerArmed = False, resolved = False,
                          settled = Some (Resolved (Some el)), queries = 1\<rparr>
      | Inr None \<Rightarrow>
          if hasBody then
            \<lparr>observing = True, timerArmed = True, resolved = False, settled = None, queries = 1\<rparr>
          else
            \<lparr>observing = False, timerArmed = False, resolved = False,
             settled = Some (Rejected TypeError), queries = 1\<rparr>)"

text \<open>
  The observer's callback runs only after the first query has accepted the selector, so
  its own query gives an element or null.
\<close>

definition observerCallback :: "elem option \<Rightarrow> wait_state \<Rightarrow> wait_state" where
  "observerCallback q s =
     (case q of
        Some found \<Rightarrow> resolvePromise (Some found) (s\<lparr>resolved := True, observing := False, queries := queries s + 1\<rparr>)
      | None \<Rightarrow> s\<lparr>queries := queries s + 1\<rparr>)"

definition timeoutCallback :: "wait_state \<Rightarrow> wait_state" where
  "timeoutCallback s =
     (if \<not> resolved s then resolvePromise None (s\<lparr>observing := False\<rparr>) else s)"

text \<open>The event loop calls a callback only while it is registered.\<close>

fun deliver :: "wait_event \<Rightarrow> wait_state \<Rightarrow> wait_state" where
  "deliver (Mutation q) s = (if observing s then observerCallback q s else s)"
| "deliver TimerFires s = (if timerArmed s then timeoutCallback (s\<lparr>timerArmed := False\<rparr>) else s)"

fun deliverAll :: "wait_event list \<Rightarrow> wait_state \<Rightarrow> wait_state" where
  "deliverAll [] s = s"
| "deliverAll (e # es) s = deliverAll es (deliver e s)"

text \<open>
  What the specification asks of the promise once the observer is in place: the element
  found at the first mutation that precedes the expiry, else null once the timer has
  expired, and pending until then.
\<close>

fun expectedOutcome :: "wait_event list \<Rightarrow> settlement option" where
  "expectedOutcome [] = None"
| "expectedOutcome (Mutation (Some el) # es) = Some (Resolved (Some el))"
| "expectedOutcome (Mutation None # es) = expectedOutcome es"
| "expectedOutcome (TimerFires # es) = Some (Resolved None)"

subsection \<open>Reading the log and the results\<close>

text \<open>The selectors the engine has waited for, in order.\<close>

fun waitedSelectors :: "effect list \<Rightarrow> string list" where
  "waitedSelectors [] = []"
| "waitedSelectors (WaitForElement s t # es) = s # waitedSelectors es"
| "waitedSelectors (e # es) = waitedSelectors es"

text \<open>The number of steps accounted for in a result.\<close>

definition processed :: "replay_results \<Rightarrow> nat" where
  "processed res = filled res + clicked res + skipped res"

text \<open>
  Every pass of the loop begins with its one wait, so the pass in which the call at
  position \<open>k\<close> of the log was made is the start index plus the number of waits among the
  calls up to and including position \<open>k\<close>, less one.
\<close>

definition stepIndexAt :: "nat \<Rightarrow> effect list \<Rightarrow> nat \<Rightarrow> nat" where
  "stepIndexAt start tr k = start + length (waitedSelectors (take (Suc k) tr)) - 1"

text \<open>
  Every click in the log comes right after the progress message that carries the index of
  the pass in which the click is made; the step at that index is a click step, the message
  comes right after the wait for that step's selector, and the element clicked is the one
  that wait resolved to.
\<close>

definition clicksReported :: "page \<Rightarrow> step list \<Rightarrow> nat \<Rightarrow> effect list \<Rightarrow> bool" where
  "clicksReported pg fs start tr =
     (\<forall>k el. k < length tr \<and> tr ! k = Click el \<longrightarrow>
        2 \<le> k \<and> start \<le> stepIndexAt start tr k \<and> stepIndexAt start tr k < length fs
        \<and> stepAction (fs ! stepIndexAt start tr k) = ''click''
        \<and> tr ! (k - 1) = SendReplayProgress (stepIndexAt start tr k)
        \<and> tr ! (k - 2) = WaitForElement (selector (fs ! stepIndexAt start tr k)) 3000
        \<and> waitResult pg (take (k - 1) tr) = Found el)"

text \<open>The state of \<open>waitForElement\<close> while the promise is pending, and once it is settled.\<close>

definition waitInv :: "wait_state \<Rightarrow> bool" where
  "waitInv s = (if settled s = None then observing s \<and> timerArmed s \<and> \<not> resolved s
                else \<not> observing s)"

subsection \<open>A page and some scripts to replay\<close>

text \<open>
  A page on which \<open>#first\<close>, \<open>#third\<close>, \<open>#agree\<close> and \<open>#submit\<close> resolve to the elements
  1, 3, 4 and 5 and no other selector resolves; the empty string is not a selector, and
  the wait for it is rejected. All four elements are \<open>input\<close> elements, and element 4 is
  a checked checkbox.
\<close>

definition examplePage :: page where
  "examplePage =
     \<lparr>waitResult = (\<lambda>tr. case last tr of
          WaitForElement s t \<Rightarrow>
            (if s = [] then WaitRejects SyntaxError
             else if s = ''#first'' then Found 1 else if s = ''#third'' then Found 3
             else if s = ''#agree'' then Found 4 else if s = ''#submit'' then Found 5
             else NotFound)
        | _ \<Rightarrow> NotFound),
      checkedOf = (\<lambda>tr el. if el = 4 then JBool True else JUndefined),
      hasNativeSetter = True,
      isInputElement = (\<lambda>el. True),
      hasClickMethod = (\<lambda>el. True)\<rparr>"

definition textStep :: "int \<Rightarrow> string \<Rightarrow> string \<Rightarrow> string \<Rightarrow> step" where
  "textStep n sel v l = \<lparr>order = n, action = Some ''fill'', selector = sel,
     step_value = JStr v, step_type = Some ''text'', label = l, fragile = False\<rparr>"

definition threeSteps :: "step list" where
  "threeSteps = [textStep 1 ''#first'' ''Ann'' ''First'', textStep 2 ''#missing'' ''x'' ''Middle'',
                 textStep 3 ''#third'' ''Lee'' ''Last'']"

definition checkboxStep :: "bool \<Rightarrow> step" where
  "checkboxStep b = \<lparr>order = 1, action = Some ''fill'', selector = ''#agree'',
     step_value = JBool b, step_type = Some ''checkbox'', label = ''Agree'', fragile = False\<rparr>"

definition submitStep :: step where
  "submitStep = \<lparr>order = 2, action = Some ''click'', selector = ''#submit'',
     step_value = JUndefined, step_type = None, label = ''Send'', fragile = False\<rparr>"

text \<open>
  A click step with the empty selector, which is what \<open>getSelector\<close> returns for \<open>body\<close>.
\<close>

definition bodyClickStep :: step where
  "bodyClickStep = \<lparr>order = 1, action = Some ''click'', selector = [],
     step_value = JUndefined, step_type = None, label = ''body'', fragile = True\<rparr>"

text \<open>
  A store in which the caller's array, at address 0, lists two step objects out of order.
\<close>

definition exampleStore :: store where
  "exampleStore =
     \<lparr>arrays = (\<lambda>a. [])(0 := [11, 10]),
      nextArray = 1,
      objects = (\<lambda>r. submitStep)(10 := checkboxStep True)\<rparr>"

section \<open>Documents and selector generation\<close>

text \<open>
  An element carries the properties the recorder reads: \<open>tagName\<close>, \<open>id\<close>, \<open>name\<close>,
  \<open>dataset.qa\<close>, the \<open>role\<close> attribute, \<open>type\<close>, \<open>value\<close>, \<open>checked\<close>, and its
  child elements. A property that is absent reads as the empty string, which JavaScript
  treats as false just like \<open>undefined\<close>. An element of a document is known by its path,
  the list of child indices that leads to it from the root; two children that look alike
  are still two elements.
\<close>

datatype element =
  Element (tagName: string) (el_id: string) (el_name: string) (data_qa: string)
    (el_role: string) (el_type: string) (el_value: string) (el_checked: bool)
    (children: "element list")

type_synonym path = "nat list"

fun nodeAt :: "element \<Rightarrow> path \<Rightarrow> element option" where
  "nodeAt e [] = Some e"
| "nodeAt e (k # ks) = (if k < length (children e) then nodeAt (children e ! k) ks else None)"

text \<open>\<open>parentElement\<close>: null for the root.\<close>

definition parentElement :: "element \<Rightarrow> path \<Rightarrow> element option" where
  "parentElement root p = (if p = [] then None else nodeAt root (butlast p))"

text \<open>\<open>toLowerCase\<close> on the ASCII letters, which is what tag names and types consist of.\<close>

definition lowerChar :: "char \<Rightarrow> char" where
  "lowerChar c =
     (case map_of (zip ''ABCDEFGHIJKLMNOPQRSTUVWXYZ'' ''abcdefghijklmnopqrstuvwxyz'') c of
        None \<Rightarrow> c
      | Some l \<Rightarrow> l)"

definition toLowerCase :: "string \<Rightarrow> string" where
  "toLowerCase s = map lowerChar s"

text \<open>Numbers in template literals: the decimal digits.\<close>

definition digitChar :: "nat \<Rightarrow> char" where
  "digitChar d = ''0123456789'' ! d"

function showNat :: "nat \<Rightarrow> string" where
  "showNat n = (if n < 10 then [digitChar n] else showNat (n div 10) @ [digitChar (n mod 10)])"
  by pat_completeness auto
termination
  by (relation "measure (\<lambda>n. n)") auto

definition showInt :: "int \<Rightarrow> string" where
  "showInt i = (if i < 0 then ''-'' @ showNat (nat (- i)) else showNat (nat i))"

text \<open>\<open>Array.prototype.indexOf\<close>: the first position, or -1.\<close>

fun indexOf :: "'a \<Rightarrow> 'a list \<Rightarrow> int" where
  "indexOf x [] = - 1"
| "indexOf x (y # ys) =
     (if x = y then 0 else (let r = indexOf x ys in if r < 0 then - 1 else r + 1))"

text \<open>\<open>Array.prototype.join\<close>.\<close>

fun joinWith :: "string \<Rightarrow> string list \<Rightarrow> string" where
  "joinWith sep [] = []"
| "joinWith sep [x] = x"
| "joinWith sep (x # y # ys) = x @ sep @ joinWith sep (y # ys)"

fun firstIndex :: "('a \<Rightarrow> bool) \<Rightarrow> 'a list \<Rightarrow> nat option" where
  "firstIndex P [] = None"
| "firstIndex P (x # xs) = (if P x then Some 0 else map_option Suc (firstIndex P xs))"

text \<open>
  \<open>document.body\<close>: the first \<open>body\<close> or \<open>frameset\<close> child of the \<open>html\<close> root, or null.
\<close>

definition documentBody :: "element \<Rightarrow> path option" where
  "documentBody root =
     (if toLowerCase (tagName root) = ''html'' then
        map_option (\<lambda>k. [k])
          (firstIndex (\<lambda>c. toLowerCase (tagName c) = ''body'' \<or> toLowerCase (tagName c) = ''frameset'')
             (children root))
      else None)"

text \<open>
  The \<open>while\<close> loop of \<open>buildPositionalSelector\<close>. \<open>siblings\<close> lists the children of the
  parent that have the tag name of \<open>current\<close>, each known by its child index, so that
  \<open>siblings.indexOf(current)\<close> looks for the index of \<open>current\<close> itself.
\<close>

function positionalParts :: "element \<Rightarrow> path \<Rightarrow> string list \<Rightarrow> string list" where
  "positionalParts root current parts =
     (case nodeAt root current of
        None \<Rightarrow> parts
      | Some cur \<Rightarrow>
          if Some current = documentBody root then parts
          else
            let tag = toLowerCase (tagName cur) in
            (case parentElement root current of
               None \<Rightarrow> tag # parts
             | Some parent \<Rightarrow>
                 let siblings = filter (\<lambda>k. tagName (children parent ! k) = tagName cur)
                                  [0..<length (children parent)]
                 in if length siblings > 1 then
                      positionalParts root (butlast current)
                        ((tag @ '':nth-of-type('' @ showInt (indexOf (last current) siblings + 1) @ '')'')
                         # parts)
                    else positionalParts root (butlast current) (tag # parts)))"
  by pat_completeness auto
termination
  by (relation "measure (\<lambda>(root, current, parts). length current)")
     (auto simp: parentElement_def split: if_splits)

definition buildPositionalSelector :: "element \<Rightarrow> path \<Rightarrow> string" where
  "buildPositionalSelector root el = joinWith '' > '' (positionalParts root el [])"

text \<open>
  The platform services \<open>getSelector\<close> calls: \<open>CSS.escape\<close>, and the number of elements
  \<open>document.querySelectorAll\<close> finds for a selector string, or nothing when the string is
  not a valid selector and the call throws.
\<close>

record selector_env =
  cssEscape :: "string \<Rightarrow> string"
  querySelectorAllLength :: "string \<Rightarrow> nat option"

definition dquote :: string where
  "dquote = [CHR 0x22]"

text \<open>\<open>el.closest(...)\<close>: the nearest of the element and its ancestors that matches.\<close>

definition closest :: "(element \<Rightarrow> bool) \<Rightarrow> element \<Rightarrow> path \<Rightarrow> path option" where
  "closest P root el =
     find (\<lambda>p. case nodeAt root p of None \<Rightarrow> False | Some e \<Rightarrow> P e) (rev (prefixes el))"

text \<open>All elements of the document in document order.\<close>

fun allPaths :: "element \<Rightarrow> path list" and childPaths :: "nat \<Rightarrow> element list \<Rightarrow> path list" where
  "allPaths (Element t i n q r ty v c cs) = [] # childPaths 0 cs"
| "childPaths k [] = []"
| "childPaths k (c # cs) = map ((#) k) (allPaths c) @ childPaths (Suc k) cs"

definition isForm :: "element \<Rightarrow> bool" where
  "isForm e = (toLowerCase (tagName e) = ''form'')"

definition querySelectorAllForm :: "element \<Rightarrow> path list" where
  "querySelectorAllForm root =
     filter (\<lambda>p. case nodeAt root p of None \<Rightarrow> False | Some e \<Rightarrow> isForm e) (allPaths root)"

text \<open>
  Tier 2 of \<open>getSelector\<close>, the \<open>name\<close> attribute: a selector when the tier returns, nothing
  when it falls through.
\<close>

definition nameTier :: "selector_env \<Rightarrow> element \<Rightarrow> path \<Rightarrow> element \<Rightarrow> js_error + (string \<times> bool) option" where
  "nameTier env root el e =
     (if el_name e = [] then Inr None
      else
        let sel = toLowerCase (tagName e) @ ''[name='' @ dquote @ el_name e @ dquote @ '']'' in
        (case querySelectorAllLength env sel of
           None \<Rightarrow> Inl SyntaxError
         | Some n \<Rightarrow>
             if n = 1 then Inr (Some (sel, False))
             else
               (case closest isForm root el of
                  None \<Rightarrow> Inr None
                | Some form \<Rightarrow>
                    let formIndex = indexOf form (querySelectorAllForm root);
                        scoped = ''form:nth-of-type('' @ showInt (formIndex + 1) @ '') ''
                                  @ toLowerCase (tagName e) @ ''[name='' @ dquote @ el_name e @ dquote @ '']''
                    in (case querySelectorAllLength env scoped of
                          None \<Rightarrow> Inl SyntaxError
                        | Some m \<Rightarrow> if m = 1 then Inr (Some (scoped, False)) else Inr None))))"

text \<open>Tier 3, the \<open>data-qa\<close> attribute.\<close>

definition dataQaTier :: "selector_env \<Rightarrow> element \<Rightarrow> js_error + (string \<times> bool) option" where
  "dataQaTier env e =
     (if data_qa e = [] then Inr None
      else
        let sel = ''[data-qa='' @ dquote @ data_qa e @ dquote @ '']'' in
        (case querySelectorAllLength env sel of
           None \<Rightarrow> Inl SyntaxError
         | Some n \<Rightarrow> if n = 1 then Inr (Some (sel, False)) else Inr None))"

text \<open>
  \<open>getSelector(el)\<close> gives the pair \<open>{ selector, fragile }\<close>. A path that leads to no
  element stands for a null argument, on which reading \<open>el.id\<close> throws.
\<close>

definition getSelector :: "selector_env \<Rightarrow> element \<Rightarrow> path \<Rightarrow> js_error + (string \<times> bool)" where
  "getSelector env root el =
     (case nodeAt root el of
        None \<Rightarrow> Inl TypeError
      | Some e \<Rightarrow>
          if el_id e \<noteq> [] then Inr (''#'' @ cssEscape env (el_id e), False)
          else
            (case nameTier env root el e of
               Inl err \<Rightarrow> Inl err
             | Inr (Some r) \<Rightarrow> Inr r
             | Inr None \<Rightarrow>
                 (case dataQaTier env e of
                    Inl err \<Rightarrow> Inl err
                  | Inr (Some r) \<Rightarrow> Inr r
                  | Inr None \<Rightarrow> Inr (buildPositionalSelector root el, True))))"

subsection \<open>The positional selector as the specification words it\<close>



subsection \<open>An example document\<close>

text \<open>
  \<open><html><head></head><body><div><span></span><input><input id="email" name="mail"
  data-qa="m"></div><textarea id="go" role="button">hi</textarea></body></html>\<close>
\<close>

definition plainElement :: "string \<Rightarrow> element list \<Rightarrow> element" where
  "plainElement t cs = Element t [] [] [] [] [] [] False cs"

definition exampleDocument :: element where
  "exampleDocument =
     plainElement ''HTML''
       [plainElement ''HEAD'' [],
        plainElement ''BODY''
          [plainElement ''DIV''
             [plainElement ''SPAN'' [],
              Element ''INPUT'' [] [] [] [] ''text'' ''a'' False [],
              Element ''INPUT'' ''email'' ''mail'' ''m'' [] ''text'' ''b'' False []],
           Element ''TEXTAREA'' ''go'' [] [] ''button'' ''textarea'' ''hi'' False []]]"

definition exampleEnv :: selector_env where
  "exampleEnv = \<lparr>cssEscape = (\<lambda>s. s), querySelectorAllLength = (\<lambda>s. Some 1)\<rparr>"

section \<open>Step recorder (content script)\<close>

text \<open>
  The recorder's module-level variables, and the messages it has sent to the coordinator.
\<close>

datatype recorder_message = FIELD_CAPTURED step | STEP_CAPTURED step

record recorder =
  recording :: bool
  fieldOrder :: nat
  capturedFields :: "step list"
  lastCapturedLabel :: string
  sentMessages :: "recorder_message list"

text \<open>
  \<open>Recorder.getLabel\<close> and \<open>Recorder.getClickLabel\<close> read label elements, text content and
  further attributes; the recorder only stores what they return, so they are taken as
  given.
\<close>

record label_env =
  getLabel :: "element \<Rightarrow> path \<Rightarrow> string"
  getClickLabel :: "element \<Rightarrow> path \<Rightarrow> string"

definition getFieldType :: "element \<Rightarrow> string" where
  "getFieldType e =
     (let tag = toLowerCase (tagName e) in
      if tag = ''select'' then ''select''
      else if tag = ''textarea'' then ''textarea''
      else if tag = ''input'' then
        (let ty = toLowerCase (if el_type e = [] then ''text'' else el_type e) in
         if ty \<in> set [''checkbox'', ''radio'', ''date'', ''time'', ''datetime-local'',
                       ''color'', ''range'', ''file'']
         then ty else ''text'')
      else ''text'')"

definition getValue :: "element \<Rightarrow> jsvalue" where
  "getValue e = (if getFieldType e = ''checkbox'' then JBool (el_checked e) else JStr (el_value e))"

definition isFormElement :: "element \<Rightarrow> bool" where
  "isFormElement e =
     (toLowerCase (tagName e) = ''input'' \<or> toLowerCase (tagName e) = ''select''
      \<or> toLowerCase (tagName e) = ''textarea'')"

text \<open>\<open>label || selector\<close>.\<close>

definition orElse :: "string \<Rightarrow> string \<Rightarrow> string" where
  "orElse a b = (if a \<noteq> [] then a else b)"

text \<open>
  \<open>onInput(e)\<close>, with \<open>target\<close> the path of \<open>e.target\<close>. \<open>capturedFields.find\<close> gives the
  first step of the buffer with the selector, whatever its action.
\<close>

definition onInput :: "selector_env \<Rightarrow> label_env \<Rightarrow> element \<Rightarrow> path \<Rightarrow> recorder \<Rightarrow> js_error + recorder" where
  "onInput env lenv root target st =
     (if \<not> recording st then Inr st
      else
        (case nodeAt root target of
           None \<Rightarrow> Inl TypeError
         | Some e \<Rightarrow>
             if \<not> isFormElement e then Inr st
             else
               (case getSelector env root target of
                  Inl err \<Rightarrow> Inl err
                | Inr (sel, frag) \<Rightarrow>
                    let ty = getFieldType e;
                        v = getValue e;
                        lbl = getLabel lenv root target
                    in (case firstIndex (\<lambda>f. selector f = sel) (capturedFields st) of
                          Some i \<Rightarrow>
                            Inr (st\<lparr>capturedFields :=
                                      (capturedFields st)[i := (capturedFields st ! i)\<lparr>step_value := v\<rparr>],
                                    lastCapturedLabel := orElse lbl sel\<rparr>)
                        | None \<Rightarrow>
                            let field = \<lparr>order = int (fieldOrder st + 1), action = Some ''fill'',
                                         selector = sel, step_value = v, step_type = Some ty,
                                         label = lbl, fragile = frag\<rparr>
                            in Inr (st\<lparr>fieldOrder := fieldOrder st + 1,
                                       capturedFields := capturedFields st @ [field],
                                       lastCapturedLabel := orElse lbl sel,
                                       sentMessages := sentMessages st @ [FIELD_CAPTURED field]\<rparr>)))))"

text \<open>
  \<open>CLICK_TARGETS\<close>: \<open>button, a, [role="button"], input[type="submit"],
  input[type="button"]\<close>.
\<close>

definition isClickTarget :: "element \<Rightarrow> bool" where
  "isClickTarget e =
     (toLowerCase (tagName e) = ''button'' \<or> toLowerCase (tagName e) = ''a''
      \<or> el_role e = ''button''
      \<or> (toLowerCase (tagName e) = ''input''
          \<and> (toLowerCase (el_type e) = ''submit'' \<or> toLowerCase (el_type e) = ''button'')))"

definition isLabel :: "element \<Rightarrow> bool" where
  "isLabel e = (toLowerCase (tagName e) = ''label'')"

definition isHud :: "element \<Rightarrow> bool" where
  "isHud e = (el_id e = ''steno-hud'')"

text \<open>
  \<open>onClickCapture(e)\<close>. The overlay element is the one with id \<open>steno-hud\<close>, so
  \<open>overlayEl.contains(el)\<close> adds nothing to \<open>el.closest('#steno-hud')\<close>.
\<close>

definition onClickCapture :: "selector_env \<Rightarrow> label_env \<Rightarrow> element \<Rightarrow> path \<Rightarrow> recorder \<Rightarrow> js_error + recorder" where
  "onClickCapture env lenv root target st =
     (if \<not> recording st then Inr st
      else
        (case closest isClickTarget root target of
           None \<Rightarrow> Inr st
         | Some el \<Rightarrow>
             (case nodeAt root el of
                None \<Rightarrow> Inl TypeError
              | Some e \<Rightarrow>
                  let tag = toLowerCase (tagName e) in
                  if tag = ''input'' \<and> toLowerCase (el_type e) \<noteq> ''submit''
                       \<and> toLowerCase (el_type e) \<noteq> ''button'' then Inr st
                  else if tag = ''label'' \<or> closest isLabel root el \<noteq> None then Inr st
                  else if closest isHud root el \<noteq> None then Inr st
                  else
                    (case getSelector env root el of
                       Inl err \<Rightarrow> Inl err
                     | Inr (sel, frag) \<Rightarrow>
                         let lbl = getClickLabel lenv root el;
                             stp = \<lparr>order = int (fieldOrder st + 1), action = Some ''click'',
                                    selector = sel, step_value = JUndefined, step_type = None,
                                    label = lbl, fragile = frag\<rparr>
                         in Inr (st\<lparr>fieldOrder := fieldOrder st + 1,
                                    capturedFields := capturedFields st @ [stp],
                                    lastCapturedLabel := orElse lbl sel,
                                    sentMessages := sentMessages st @ [STEP_CAPTURED stp]\<rparr>)))))"

definition startRecording :: "recorder \<Rightarrow> recorder" where
  "startRecording st = st\<lparr>recording := True, fieldOrder := 0, capturedFields := [],
                          lastCapturedLabel := []\<rparr>"

definition stopRecording :: "recorder \<Rightarrow> recorder \<times> step list" where
  "stopRecording st = (st\<lparr>recording := False\<rparr>, capturedFields st)"

subsection \<open>A recording session on the example document\<close>

text \<open>
  In the example document no element has a label, a placeholder or text, so \<open>getLabel\<close>
  ends at the \<open>name\<close> attribute and \<open>getClickLabel\<close> at the \<open>value\<close>.
\<close>

definition exampleLabels :: label_env where
  "exampleLabels =
     \<lparr>getLabel = (\<lambda>root p. case nodeAt root p of None \<Rightarrow> [] | Some e \<Rightarrow> el_name e),
      getClickLabel = (\<lambda>root p. case nodeAt root p of None \<Rightarrow> [] | Some e \<Rightarrow> el_value e)\<rparr>"

definition idleRecorder :: recorder where
  "idleRecorder = \<lparr>recording = False, fieldOrder = 0, capturedFields = [],
                    lastCapturedLabel = [], sentMessages = []\<rparr>"

text \<open>The click step recorded for the text area \<open>#go\<close>, which carries \<open>role="button"\<close>.\<close>

definition goClickStep :: step where
  "goClickStep = \<lparr>order = 1, action = Some ''click'', selector = ''#go'',
     step_value = JUndefined, step_type = None, label = ''hi'', fragile = False\<rparr>"

definition clickedRecorder :: recorder where
  "clickedRecorder = \<lparr>recording = True, fieldOrder = 1, capturedFields = [goClickStep],
     lastCapturedLabel = ''hi'', sentMessages = [STEP_CAPTURED goClickStep]\<rparr>"

text \<open>The example document with the value of the field \<open>#email\<close> set to \<open>v\<close>.\<close>

definition documentWithEmail :: "string \<Rightarrow> element" where
  "documentWithEmail v =
     plainElement ''HTML''
       [plainElement ''HEAD'' [],
        plainElement ''BODY''
          [plainElement ''DIV''
             [plainElement ''SPAN'' [],
              Element ''INPUT'' [] [] [] [] ''text'' ''a'' False [],
              Element ''INPUT'' ''email'' ''mail'' ''m'' [] ''text'' v False []],
           Element ''TEXTAREA'' ''go'' [] [] ''button'' ''textarea'' ''hi'' False []]]"

text \<open>Running a handler on the state an earlier handler returned, as long as none throws.\<close>

definition andThen :: "js_error + recorder \<Rightarrow> (recorder \<Rightarrow> js_error + recorder) \<Rightarrow> js_error + recorder" where
  "andThen r f = (case r of Inl err \<Rightarrow> Inl err | Inr st \<Rightarrow> f st)"

section \<open>Properties\<close>

subsection \<open>Coordinator: navigation during a replay\<close>

lemma startedCoordinator_eq:
  "startedCoordinator = \<lparr>replayState = Some \<lparr>tabId = 7, steps = Some tenSteps,
      lastCompletedIndex = -1, results = None, originHostname = ''a.com''\<rparr>,
    pendingReplayResults = None\<rparr>"
  by (simp add: startedCoordinator_def onReplayStarted_def idleCoordinator_def)

lemma progressedCoordinator_eq:
  "progressedCoordinator = \<lparr>replayState = Some \<lparr>tabId = 7, steps = Some tenSteps,
      lastCompletedIndex = 4, results = None, originHostname = ''a.com''\<rparr>,
    pendingReplayResults = None\<rparr>"
  by (simp add: progressedCoordinator_def onReplayProgress_def startedCoordinator_eq)

lemma length_tenSteps: "length tenSteps = 10"
  by (simp add: tenSteps_def)

text \<open>
  C3 as stated fails: a session for which no progress has been reported yet
  (\<open>lastCompletedIndex = -1\<close>, as \<open>REPLAY_STARTED\<close> leaves it) is left untouched by a
  navigation of its tab to another hostname. The listener returns at its guard
  \<open>!steps || lastIdx < 0\<close> before it compares hostnames: no report is created, nothing is
  marked aborted and the session stays active.
\<close>

theorem cross_domain_before_progress_counterexample:
  "replayState startedCoordinator \<noteq> None
   \<and> tabId (the (replayState startedCoordinator)) = 7
   \<and> originHostname (the (replayState startedCoordinator)) \<noteq> ''b.com''
   \<and> onUpdated 7 (Some ''complete'') (Hostname ''b.com'') startedCoordinator
       = (startedCoordinator, None)
   \<and> pendingReplayResults startedCoordinator = None"
  by (simp add: startedCoordinator_eq onUpdated_def)

lemma onUpdated_guard:
  assumes "replayState c = Some rs" and "steps rs = None \<or> lastCompletedIndex rs < 0"
  shows "onUpdated t st u c = (c, None)"
  using assms by (auto simp: onUpdated_def Let_def split: option.splits)

text \<open>
  When the accumulated report has no warnings list the \<open>push\<close> throws after \<open>aborted\<close>
  was set: the report is marked aborted and the session is discarded, and no warning is
  added.
\<close>

lemma abort_on_report_without_warnings:
  "onUpdated 7 (Some ''complete'') (Hostname ''b.com'')
     (progressedCoordinator\<lparr>pendingReplayResults := Some (emptyReport\<lparr>p_warnings := None\<rparr>)\<rparr>)
   = (progressedCoordinator\<lparr>replayState := None,
        pendingReplayResults := Some (emptyReport\<lparr>p_warnings := None, p_aborted := Some True\<rparr>)\<rparr>,
      None)"
  by (simp add: progressedCoordinator_eq onUpdated_def reportOrEmpty_def emptyReport_def)

text \<open>
  C3 (amended): for every active session, a navigation-complete signal for the session's
  tab whose hostname is not \<open>originHostname\<close> does the following. If the session holds its
  steps and progress has been reported (\<open>lastCompletedIndex \<ge> 0\<close>), and the accumulated
  report, if there is one, has a warnings list, the signal sets \<open>aborted = true\<close> on the
  accumulated report (a fresh report of zeros when there was none), appends the warning
  that names the new hostname, and discards the session, so that every later signal leaves
  the coordinator as it is and schedules nothing. If the session holds no steps or no
  progress has been reported (\<open>lastCompletedIndex < 0\<close>), this signal, like any other,
  leaves the coordinator as it is and schedules nothing.
\<close>

theorem cross_domain_navigation_aborts:
  assumes "replayState c = Some rs" and "newHostname \<noteq> originHostname rs"
  shows "(steps rs = None \<or> lastCompletedIndex rs < 0 \<longrightarrow>
            (\<forall>t st u. onUpdated t st u c = (c, None)))
       \<and> (\<forall>stps ws. steps rs = Some stps \<and> 0 \<le> lastCompletedIndex rs
             \<and> p_warnings (reportOrEmpty (pendingReplayResults c)) = Some ws \<longrightarrow>
            (\<exists>c'. onUpdated (tabId rs) (Some ''complete'') (Hostname newHostname) c = (c', None)
               \<and> replayState c' = None
               \<and> pendingReplayResults c' = Some ((reportOrEmpty (pendingReplayResults c))
                    \<lparr>p_aborted := Some True, p_warnings := Some (ws @ [abortWarning newHostname])\<rparr>)
               \<and> (\<forall>t st u. onUpdated t st u c' = (c', None))))"
proof (intro conjI impI allI)
  fix t st u
  assume "steps rs = None \<or> lastCompletedIndex rs < 0"
  with assms(1) show "onUpdated t st u c = (c, None)" by (rule onUpdated_guard)
next
  fix stps ws
  assume "steps rs = Some stps \<and> 0 \<le> lastCompletedIndex rs
             \<and> p_warnings (reportOrEmpty (pendingReplayResults c)) = Some ws"
  with assms show "\<exists>c'. onUpdated (tabId rs) (Some ''complete'') (Hostname newHostname) c = (c', None)
               \<and> replayState c' = None
               \<and> pendingReplayResults c' = Some ((reportOrEmpty (pendingReplayResults c))
                    \<lparr>p_aborted := Some True, p_warnings := Some (ws @ [abortWarning newHostname])\<rparr>)
               \<and> (\<forall>t st u. onUpdated t st u c' = (c', None))"
    by (simp add: onUpdated_def Let_def)
qed

theorem cross_domain_navigation_aborts_witness:
  "replayState progressedCoordinator = Some \<lparr>tabId = 7, steps = Some tenSteps,
      lastCompletedIndex = 4, results = None, originHostname = ''a.com''\<rparr>
   \<and> (\<exists>c'. onUpdated 7 (Some ''complete'') (Hostname ''b.com'') progressedCoordinator = (c', None)
         \<and> replayState c' = None
         \<and> pendingReplayResults c' = Some (emptyReport\<lparr>p_aborted := Some True,
              p_warnings := Some [abortWarning ''b.com'']\<rparr>)
         \<and> (\<forall>t st u. onUpdated t st u c' = (c', None)))
   \<and> replayState startedCoordinator = Some \<lparr>tabId = 7, steps = Some tenSteps,
      lastCompletedIndex = -1, results = None, originHostname = ''a.com''\<rparr>
   \<and> onUpdated 7 (Some ''complete'') (Hostname ''b.com'') startedCoordinator = (startedCoordinator, None)"
  using cross_domain_navigation_aborts [of progressedCoordinator "\<lparr>tabId = 7, steps = Some tenSteps,
      lastCompletedIndex = 4, results = None, originHostname = ''a.com''\<rparr>" "''b.com''"]
    cross_domain_navigation_aborts [of startedCoordinator "\<lparr>tabId = 7, steps = Some tenSteps,
      lastCompletedIndex = -1, results = None, originHostname = ''a.com''\<rparr>" "''b.com''"]
  by (simp add: progressedCoordinator_eq startedCoordinator_eq reportOrEmpty_def emptyReport_def)

text \<open>
  C4 as stated fails on the same guard: with \<open>lastCompletedIndex = -1\<close> and ten steps the
  resume index would be 0, which is below the number of steps, yet a same-hostname
  navigation neither continues the replay nor discards the session.
\<close>

theorem resume_before_progress_counterexample:
  "replayState startedCoordinator = Some \<lparr>tabId = 7, steps = Some tenSteps,
      lastCompletedIndex = -1, results = None, originHostname = ''a.com''\<rparr>
   \<and> (-1 :: int) + 1 < int (length tenSteps)
   \<and> onUpdated 7 (Some ''complete'') (Hostname ''a.com'') startedCoordinator
       = (startedCoordinator, None)"
  by (simp add: startedCoordinator_eq onUpdated_def length_tenSteps)

text \<open>
  C4 (amended): for every active session, a same-hostname navigation-complete signal for
  the session's tab does the following. If the session holds its steps and progress has
  been reported (\<open>lastCompletedIndex \<ge> 0\<close>), the coordinator computes
  \<open>resumeIndex = lastCompletedIndex + 1\<close>; if \<open>resumeIndex \<ge> steps.length\<close> the session is
  discarded and nothing is scheduled; otherwise the session is kept and a continuation is
  scheduled which, when the liveness probe answers or the reinjection succeeds, sends
  exactly one \<open>CONTINUE_REPLAY\<close> to the tab, with the session's steps and
  \<open>startIndex = resumeIndex\<close>, on which the content script runs \<open>replayScript\<close> from
  \<open>resumeIndex\<close>. If the session holds no steps or no progress has been reported
  (\<open>lastCompletedIndex < 0\<close>), this signal, like any other, leaves the coordinator as it
  is and schedules nothing.
\<close>

theorem same_domain_navigation_resumes:
  assumes "replayState c = Some rs"
  shows "(steps rs = None \<or> lastCompletedIndex rs < 0 \<longrightarrow>
            (\<forall>t st u. onUpdated t st u c = (c, None)))
       \<and> (\<forall>stps. steps rs = Some stps \<and> 0 \<le> lastCompletedIndex rs \<longrightarrow>
            (int (length stps) \<le> lastCompletedIndex rs + 1 \<longrightarrow>
               onUpdated (tabId rs) (Some ''complete'') (Hostname (originHostname rs)) c
                 = (c\<lparr>replayState := None\<rparr>, None))
            \<and> (lastCompletedIndex rs + 1 < int (length stps) \<longrightarrow>
               (\<exists>c' k. onUpdated (tabId rs) (Some ''complete'') (Hostname (originHostname rs)) c = (c', Some k)
                  \<and> replayState c' = Some rs
                  \<and> k_startIndex k = lastCompletedIndex rs + 1
                  \<and> (\<forall>lastError injected c'' pg. \<not> lastError \<or> injected \<longrightarrow>
                        continueMessages (snd (continueReplay lastError injected k c''))
                          = [(tabId rs, stps, lastCompletedIndex rs + 1)]
                        \<and> map (onContinueReplay pg) (continueMessages (snd (continueReplay lastError injected k c'')))
                          = [replayScript pg stps (nat (lastCompletedIndex rs + 1))]))))"
proof (intro conjI)
  show "steps rs = None \<or> lastCompletedIndex rs < 0 \<longrightarrow>
            (\<forall>t st u. onUpdated t st u c = (c, None))"
    using onUpdated_guard [OF assms] by blast
  show "\<forall>stps. steps rs = Some stps \<and> 0 \<le> lastCompletedIndex rs \<longrightarrow>
            (int (length stps) \<le> lastCompletedIndex rs + 1 \<longrightarrow>
               onUpdated (tabId rs) (Some ''complete'') (Hostname (originHostname rs)) c
                 = (c\<lparr>replayState := None\<rparr>, None))
            \<and> (lastCompletedIndex rs + 1 < int (length stps) \<longrightarrow>
               (\<exists>c' k. onUpdated (tabId rs) (Some ''complete'') (Hostname (originHostname rs)) c = (c', Some k)
                  \<and> replayState c' = Some rs
                  \<and> k_startIndex k = lastCompletedIndex rs + 1
                  \<and> (\<forall>lastError injected c'' pg. \<not> lastError \<or> injected \<longrightarrow>
                        continueMessages (snd (continueReplay lastError injected k c''))
                          = [(tabId rs, stps, lastCompletedIndex rs + 1)]
                        \<and> map (onContinueReplay pg) (continueMessages (snd (continueReplay lastError injected k c'')))
                          = [replayScript pg stps (nat (lastCompletedIndex rs + 1))])))"
    using assms by (simp add: onUpdated_def Let_def continueReplay_def onContinueReplay_def)
qed

theorem same_domain_navigation_resumes_witness:
  "replayState progressedCoordinator = Some \<lparr>tabId = 7, steps = Some tenSteps,
      lastCompletedIndex = 4, results = None, originHostname = ''a.com''\<rparr>
   \<and> (\<exists>c' k. onUpdated 7 (Some ''complete'') (Hostname ''a.com'') progressedCoordinator = (c', Some k)
         \<and> k_startIndex k = 5
         \<and> continueMessages (snd (continueReplay False False k c')) = [(7, tenSteps, 5)]
         \<and> continueMessages (snd (continueReplay True True k c')) = [(7, tenSteps, 5)]
         \<and> map (onContinueReplay examplePage) (continueMessages (snd (continueReplay False False k c')))
             = [replayScript examplePage tenSteps 5])
   \<and> replayState startedCoordinator = Some \<lparr>tabId = 7, steps = Some tenSteps,
      lastCompletedIndex = -1, results = None, originHostname = ''a.com''\<rparr>
   \<and> onUpdated 7 (Some ''complete'') (Hostname ''a.com'') startedCoordinator = (startedCoordinator, None)"
proof -
  let ?rs = "\<lparr>tabId = 7, steps = Some tenSteps,
      lastCompletedIndex = 4, results = None, originHostname = ''a.com''\<rparr>"
  let ?started = "\<lparr>tabId = 7, steps = Some tenSteps,
      lastCompletedIndex = -1, results = None, originHostname = ''a.com''\<rparr>"
  have p: "replayState progressedCoordinator = Some ?rs" by (simp add: progressedCoordinator_eq)
  have s: "replayState startedCoordinator = Some ?started" by (simp add: startedCoordinator_eq)
  from same_domain_navigation_resumes [OF p]
  have "\<exists>c' k. onUpdated 7 (Some ''complete'') (Hostname ''a.com'') progressedCoordinator = (c', Some k)
         \<and> replayState c' = Some ?rs
         \<and> k_startIndex k = 5
         \<and> (\<forall>lastError injected c'' pg. \<not> lastError \<or> injected \<longrightarrow>
               continueMessages (snd (continueReplay lastError injected k c'')) = [(7, tenSteps, 5)]
               \<and> map (onContinueReplay pg) (continueMessages (snd (continueReplay lastError injected k c'')))
                   = [replayScript pg tenSteps 5])"
    by (simp add: length_tenSteps)
  then obtain c' k where
    1: "onUpdated 7 (Some ''complete'') (Hostname ''a.com'') progressedCoordinator = (c', Some k)"
    and 2: "k_startIndex k = 5"
    and 3: "\<forall>lastError injected c'' pg. \<not> lastError \<or> injected \<longrightarrow>
               continueMessages (snd (continueReplay lastError injected k c'')) = [(7, tenSteps, 5)]
               \<and> map (onContinueReplay pg) (continueMessages (snd (continueReplay lastError injected k c'')))
                   = [replayScript pg tenSteps 5]"
    by blast
  from 3 have 4: "continueMessages (snd (continueReplay False False k c')) = [(7, tenSteps, 5)]"
    and 5: "continueMessages (snd (continueReplay True True k c')) = [(7, tenSteps, 5)]"
    and 6: "map (onContinueReplay examplePage) (continueMessages (snd (continueReplay False False k c')))
             = [replayScript examplePage tenSteps 5]"
    by blast+
  from same_domain_navigation_resumes [OF s]
  have 7: "onUpdated 7 (Some ''complete'') (Hostname ''a.com'') startedCoordinator = (startedCoordinator, None)"
    by simp
  have "\<exists>c' k. onUpdated 7 (Some ''complete'') (Hostname ''a.com'') progressedCoordinator = (c', Some k)
         \<and> k_startIndex k = 5
         \<and> continueMessages (snd (continueReplay False False k c')) = [(7, tenSteps, 5)]
         \<and> continueMessages (snd (continueReplay True True k c')) = [(7, tenSteps, 5)]
         \<and> map (onContinueReplay examplePage) (continueMessages (snd (continueReplay False False k c')))
             = [replayScript examplePage tenSteps 5]"
    by (rule exI [of _ c'], rule exI [of _ k]) (simp add: 1 2 4 5 onContinueReplay_def)
  with p s 7 show ?thesis by simp
qed

subsection \<open>Replay engine\<close>

declare replayLoop.simps [simp del]

lemma waitedSelectors_append: "waitedSelectors (xs @ ys) = waitedSelectors xs @ waitedSelectors ys"
  by (induction xs rule: waitedSelectors.induct) simp_all

lemma logOf_simps [simp]: "logOf (Inr s) = snd s" "logOf (Inl (err, tr)) = tr"
  by (cases s) (simp_all add: logOf_def)

lemma setValue_calls:
  "setValue pg tr el v ty = Inr calls \<Longrightarrow> waitedSelectors calls = [] \<and> (\<forall>e. Click e \<notin> set calls)"
  by (auto simp: setValue_def split: if_splits)

lemma replayStep_waits:
  "waitedSelectors (logOf (replayStep pg stp i s)) = waitedSelectors (snd s) @ [selector stp]"
proof (cases "waitResult pg (snd s @ [WaitForElement (selector stp) 3000])")
  case (Found el)
  show ?thesis
  proof (cases "setValue pg (snd s @ [WaitForElement (selector stp) 3000]) el (step_value stp) (step_type stp)")
    case (Inl err)
    with Found show ?thesis
      by (simp add: replayStep_def Let_def waitedSelectors_append)
  next
    case (Inr calls)
    with Found setValue_calls [OF Inr] show ?thesis
      by (simp add: replayStep_def Let_def waitedSelectors_append)
  qed
next
  case NotFound
  then show ?thesis by (simp add: replayStep_def Let_def waitedSelectors_append)
next
  case (WaitRejects err)
  then show ?thesis by (simp add: replayStep_def Let_def waitedSelectors_append)
qed

lemma replayStep_returns:
  assumes "replayStep pg stp i s = Inr s'"
  shows "waitedSelectors (snd s') = waitedSelectors (snd s) @ [selector stp]
       \<and> processed (fst s') = Suc (processed (fst s))"
proof -
  have "waitedSelectors (snd s') = waitedSelectors (snd s) @ [selector stp]"
    using replayStep_waits [of pg stp i s] assms by simp
  moreover have "processed (fst s') = Suc (processed (fst s))"
    using assms
    by (auto simp: replayStep_def Let_def processed_def split: wait_outcome.splits if_splits sum.splits)
  ultimately show ?thesis by simp
qed

lemma replayLoop_returns:
  "replayLoop pg fs i s = Inr s' \<Longrightarrow>
     waitedSelectors (snd s') = waitedSelectors (snd s) @ map selector (drop i fs)
     \<and> processed (fst s') = processed (fst s) + (length fs - i)"
proof (induction pg fs i s rule: replayLoop.induct)
  case (1 pg fs i s)
  show ?case
  proof (cases "i < length fs")
    case True
    with "1.prems" obtain s1 where
      s1: "replayStep pg (fs ! i) i s = Inr s1" and rest: "replayLoop pg fs (Suc i) s1 = Inr s'"
      by (auto simp: replayLoop.simps [of pg fs i] split: sum.splits)
    from True have "drop i fs = fs ! i # drop (Suc i) fs"
      by (simp add: Cons_nth_drop_Suc)
    with "1.IH" [OF True s1 rest] replayStep_returns [OF s1] True show ?thesis
      by simp
  next
    case False
    with "1.prems" show ?thesis by (simp add: replayLoop.simps [of pg fs i])
  qed
qed

lemma replayStep_log:
  "prefix (snd s @ [WaitForElement (selector stp) 3000]) (logOf (replayStep pg stp i s))"
  by (auto simp: replayStep_def Let_def split: wait_outcome.splits sum.splits)

lemma replayLoop_log: "prefix (snd s) (logOf (replayLoop pg fs i s))"
proof (induction pg fs i s rule: replayLoop.induct)
  case (1 pg fs i s)
  show ?case
  proof (cases "i < length fs")
    case True
    have step: "prefix (snd s) (logOf (replayStep pg (fs ! i) i s))"
      using replayStep_log [of s "fs ! i" pg i] by (meson append_prefixD)
    show ?thesis
    proof (cases "replayStep pg (fs ! i) i s")
      case (Inl thrown)
      with True step show ?thesis
        by (simp add: replayLoop.simps [of pg fs i] logOf_def)
    next
      case (Inr s1)
      with step have "prefix (snd s) (snd s1)" by (simp add: logOf_def split: prod.splits)
      with "1.IH" [OF True Inr] have "prefix (snd s) (logOf (replayLoop pg fs (Suc i) s1))"
        using prefix_order.trans by blast
      with True Inr show ?thesis by (simp add: replayLoop.simps [of pg fs i])
    qed
  next
    case False
    then show ?thesis by (simp add: replayLoop.simps [of pg fs i] logOf_def split: prod.splits)
  qed
qed

lemma replayLoop_waits_first:
  assumes "i < length fs"
  shows "prefix (snd s @ [WaitForElement (selector (fs ! i)) 3000]) (logOf (replayLoop pg fs i s))"
proof (cases "replayStep pg (fs ! i) i s")
  case (Inl thrown)
  with assms replayStep_log [of s "fs ! i" pg i] show ?thesis
    by (simp add: replayLoop.simps [of pg fs i] logOf_def)
next
  case (Inr s1)
  with replayStep_log [of s "fs ! i" pg i]
  have "prefix (snd s @ [WaitForElement (selector (fs ! i)) 3000]) (snd s1)"
    by (simp add: logOf_def split: prod.splits)
  with replayLoop_log [of s1 pg fs "Suc i"]
  have "prefix (snd s @ [WaitForElement (selector (fs ! i)) 3000]) (logOf (replayLoop pg fs (Suc i) s1))"
    using prefix_order.trans by blast
  with assms Inr show ?thesis by (simp add: replayLoop.simps [of pg fs i])
qed

lemma replayLoop_waits_in_order:
  "prefix (waitedSelectors (logOf (replayLoop pg fs i s)))
          (waitedSelectors (snd s) @ map selector (drop i fs))"
proof (induction pg fs i s rule: replayLoop.induct)
  case (1 pg fs i s)
  show ?case
  proof (cases "i < length fs")
    case True
    then have d: "drop i fs = fs ! i # drop (Suc i) fs"
      by (simp add: Cons_nth_drop_Suc)
    show ?thesis
    proof (cases "replayStep pg (fs ! i) i s")
      case (Inl thrown)
      with True d replayStep_waits [of pg "fs ! i" i s] show ?thesis
        by (simp add: replayLoop.simps [of pg fs i])
    next
      case (Inr s1)
      with "1.IH" [OF True Inr] replayStep_waits [of pg "fs ! i" i s] True d show ?thesis
        by (simp add: replayLoop.simps [of pg fs i])
    qed
  next
    case False
    then show ?thesis by (simp add: replayLoop.simps [of pg fs i])
  qed
qed

lemma body_selector_is_empty: "getSelector exampleEnv exampleDocument [1] = Inr ([], True)"
  by code_simp

text \<open>
  C5 as stated fails for a selector that does not resolve because the selector engine
  refuses it. The empty string is such a selector, and it is what \<open>getSelector\<close> returns
  for \<open>body\<close>. The wait for it is rejected, the exception leaves \<open>replayScript\<close>, nothing
  is counted as skipped, no warning is kept, and the step after it is never waited for.
\<close>

theorem rejected_wait_aborts_replay_counterexample:
  "selector bodyClickStep = []
   \<and> waitResult examplePage [WaitForElement (selector bodyClickStep) 3000] = WaitRejects SyntaxError
   \<and> replayScript examplePage [bodyClickStep, textStep 2 ''#third'' ''Lee'' ''Last''] 0
       = Inl (SyntaxError, [WaitForElement [] 3000])"
  by (simp add: bodyClickStep_def textStep_def examplePage_def replayScript_def replayStep_def
        Let_def initialResults_def replayLoop.simps)

text \<open>
  C5 (amended): when the wait for the selector of the step at index \<open>i\<close> resolves to null
  (the selector is accepted and no element matches it within the timeout), the loop goes on
  to index \<open>i + 1\<close> with \<open>skipped\<close> one higher, with the one warning \<open>selector (label)\<close>
  of that step appended, with \<open>lastIndex = i\<close>, and with nothing else done to the page.
  Such a failure does not cut the run short: if a step follows, the next thing the engine
  does is wait for that step's selector, and a run that returns has waited for the selector
  of every remaining step, in order, and counts every remaining step as filled, clicked or
  skipped.
\<close>

theorem unresolved_step_is_skipped:
  assumes "i < length fs"
    and "waitResult pg (tr @ [WaitForElement (selector (fs ! i)) 3000]) = NotFound"
  shows "replayLoop pg fs i (res, tr) =
           replayLoop pg fs (Suc i)
             (res\<lparr>skipped := skipped res + 1,
                  warnings := warnings res @ [selector (fs ! i) @ '' ('' @ label (fs ! i) @ '')''],
                  lastIndex := i\<rparr>,
              tr @ [WaitForElement (selector (fs ! i)) 3000])
       \<and> (Suc i < length fs \<longrightarrow>
            prefix (tr @ [WaitForElement (selector (fs ! i)) 3000,
                          WaitForElement (selector (fs ! Suc i)) 3000])
                   (logOf (replayLoop pg fs i (res, tr))))
       \<and> (\<forall>res' tr'. replayLoop pg fs i (res, tr) = Inr (res', tr') \<longrightarrow>
            waitedSelectors tr' = waitedSelectors tr @ map selector (drop i fs)
            \<and> processed res' = processed res + (length fs - i))"
proof (intro conjI)
  let ?next = "(res\<lparr>skipped := skipped res + 1,
                  warnings := warnings res @ [selector (fs ! i) @ '' ('' @ label (fs ! i) @ '')''],
                  lastIndex := i\<rparr>,
              tr @ [WaitForElement (selector (fs ! i)) 3000])"
  show eq: "replayLoop pg fs i (res, tr) = replayLoop pg fs (Suc i) ?next"
    using assms
    by (simp add: replayLoop.simps [of pg fs i] replayStep_def Let_def skipWarning_def)
  show "Suc i < length fs \<longrightarrow>
            prefix (tr @ [WaitForElement (selector (fs ! i)) 3000,
                          WaitForElement (selector (fs ! Suc i)) 3000])
                   (logOf (replayLoop pg fs i (res, tr)))"
  proof
    assume "Suc i < length fs"
    from replayLoop_waits_first [OF this, of ?next pg] eq
    show "prefix (tr @ [WaitForElement (selector (fs ! i)) 3000,
                          WaitForElement (selector (fs ! Suc i)) 3000])
                   (logOf (replayLoop pg fs i (res, tr)))"
      by simp
  qed
  show "\<forall>res' tr'. replayLoop pg fs i (res, tr) = Inr (res', tr') \<longrightarrow>
            waitedSelectors tr' = waitedSelectors tr @ map selector (drop i fs)
            \<and> processed res' = processed res + (length fs - i)"
    using replayLoop_returns [of pg fs i "(res, tr)"] by auto
qed

lemma sorted_threeSteps: "sort_key order threeSteps = threeSteps"
  by (simp add: threeSteps_def textStep_def)

theorem unresolved_step_is_skipped_witness:
  "(1::nat) < length threeSteps
   \<and> replayStep examplePage (threeSteps ! 0) 0 (initialResults 0, [])
       = Inr (\<lparr>filled = 1, clicked = 0, skipped = 0, warnings = [], lastIndex = 0\<rparr>,
              [WaitForElement ''#first'' 3000, NativeSetValue 1 (JStr ''Ann''),
               DispatchEvent 1 ''input'' True, DispatchEvent 1 ''change'' True, WaitForDomSettle 150])
   \<and> waitResult examplePage
        ([WaitForElement ''#first'' 3000, NativeSetValue 1 (JStr ''Ann''),
          DispatchEvent 1 ''input'' True, DispatchEvent 1 ''change'' True, WaitForDomSettle 150]
         @ [WaitForElement (selector (threeSteps ! 1)) 3000]) = NotFound
   \<and> replayScript examplePage threeSteps 0
       = Inr (\<lparr>filled = 2, clicked = 0, skipped = 1, warnings = [''#missing (Middle)''], lastIndex = 2\<rparr>,
              [WaitForElement ''#first'' 3000, NativeSetValue 1 (JStr ''Ann''),
               DispatchEvent 1 ''input'' True, DispatchEvent 1 ''change'' True, WaitForDomSettle 150,
               WaitForElement ''#missing'' 3000,
               WaitForElement ''#third'' 3000, NativeSetValue 3 (JStr ''Lee''),
               DispatchEvent 3 ''input'' True, DispatchEvent 3 ''change'' True, WaitForDomSettle 150])"
proof -
  let ?res1 = "\<lparr>filled = 1, clicked = 0, skipped = 0, warnings = [], lastIndex = 0\<rparr>"
  let ?tr1 = "[WaitForElement ''#first'' 3000, NativeSetValue 1 (JStr ''Ann''),
               DispatchEvent 1 ''input'' True, DispatchEvent 1 ''change'' True, WaitForDomSettle 150]"
  have len: "(1::nat) < length threeSteps" by (simp add: threeSteps_def)
  have l0: "0 < length threeSteps" by (simp add: threeSteps_def)
  have first: "replayStep examplePage (threeSteps ! 0) 0 (initialResults 0, []) = Inr (?res1, ?tr1)"
    by (simp add: threeSteps_def textStep_def examplePage_def replayStep_def Let_def
          initialResults_def stepAction_def setValue_def)
  have missing: "waitResult examplePage (?tr1 @ [WaitForElement (selector (threeSteps ! 1)) 3000]) = NotFound"
    by (simp add: threeSteps_def textStep_def examplePage_def)
  have start: "replayScript examplePage threeSteps 0 = replayLoop examplePage threeSteps 1 (?res1, ?tr1)"
    unfolding replayScript_def sorted_threeSteps
    using first l0 by (simp add: replayLoop.simps [of examplePage threeSteps 0])
  have third: "replayLoop examplePage threeSteps (Suc 1)
       (?res1\<lparr>skipped := skipped ?res1 + 1,
               warnings := warnings ?res1 @ [selector (threeSteps ! 1) @ '' ('' @ label (threeSteps ! 1) @ '')''],
               lastIndex := 1\<rparr>,
        ?tr1 @ [WaitForElement (selector (threeSteps ! 1)) 3000])
     = Inr (\<lparr>filled = 2, clicked = 0, skipped = 1, warnings = [''#missing (Middle)''], lastIndex = 2\<rparr>,
              ?tr1 @ [WaitForElement ''#missing'' 3000,
               WaitForElement ''#third'' 3000, NativeSetValue 3 (JStr ''Lee''),
               DispatchEvent 3 ''input'' True, DispatchEvent 3 ''change'' True, WaitForDomSettle 150])"
    by (simp add: threeSteps_def textStep_def examplePage_def replayStep_def Let_def
          stepAction_def setValue_def replayLoop.simps)
  from unresolved_step_is_skipped [OF len missing, of ?res1] third start
  have "replayScript examplePage threeSteps 0
       = Inr (\<lparr>filled = 2, clicked = 0, skipped = 1, warnings = [''#missing (Middle)''], lastIndex = 2\<rparr>,
              ?tr1 @ [WaitForElement ''#missing'' 3000,
               WaitForElement ''#third'' 3000, NativeSetValue 3 (JStr ''Lee''),
               DispatchEvent 3 ''input'' True, DispatchEvent 3 ''change'' True, WaitForDomSettle 150])"
    by simp
  with len first missing show ?thesis by simp
qed

text \<open>
  C7: for a checkbox fill step whose element is found, when \<open>el.checked\<close> is already the
  target value the engine sets nothing and dispatches no event (the log only gains the
  two waits), and \<open>filled\<close> still goes up by one; when they differ it sets \<open>checked\<close>
  to the target and dispatches \<open>change\<close> and then \<open>input\<close>, both bubbling.
\<close>

theorem checkbox_fill_is_idempotent:
  assumes "stepAction stp \<noteq> ''click''" and "step_type stp = Some ''checkbox''"
    and "waitResult pg (tr @ [WaitForElement (selector stp) 3000]) = Found el"
  shows "(checkedOf pg (tr @ [WaitForElement (selector stp) 3000]) el = step_value stp \<longrightarrow>
            replayStep pg stp i (res, tr) =
              Inr (res\<lparr>filled := filled res + 1, lastIndex := i\<rparr>,
                   tr @ [WaitForElement (selector stp) 3000, WaitForDomSettle 150]))
       \<and> (checkedOf pg (tr @ [WaitForElement (selector stp) 3000]) el \<noteq> step_value stp \<longrightarrow>
            replayStep pg stp i (res, tr) =
              Inr (res\<lparr>filled := filled res + 1, lastIndex := i\<rparr>,
                   tr @ [WaitForElement (selector stp) 3000,
                         SetChecked el (step_value stp),
                         DispatchEvent el ''change'' True,
                         DispatchEvent el ''input'' True,
                         WaitForDomSettle 150]))"
  using assms by (simp add: replayStep_def Let_def setValue_def)

theorem checkbox_fill_is_idempotent_witness:
  "stepAction (checkboxStep True) \<noteq> ''click''
   \<and> waitResult examplePage [WaitForElement ''#agree'' 3000] = Found 4
   \<and> checkedOf examplePage [WaitForElement ''#agree'' 3000] 4 = JBool True
   \<and> replayStep examplePage (checkboxStep True) 0 (initialResults 0, [])
       = Inr (\<lparr>filled = 1, clicked = 0, skipped = 0, warnings = [], lastIndex = 0\<rparr>,
              [WaitForElement ''#agree'' 3000, WaitForDomSettle 150])
   \<and> replayStep examplePage (checkboxStep False) 0 (initialResults 0, [])
       = Inr (\<lparr>filled = 1, clicked = 0, skipped = 0, warnings = [], lastIndex = 0\<rparr>,
              [WaitForElement ''#agree'' 3000, SetChecked 4 (JBool False),
               DispatchEvent 4 ''change'' True, DispatchEvent 4 ''input'' True, WaitForDomSettle 150])"
  using checkbox_fill_is_idempotent [of "checkboxStep True" examplePage "[]" 4 0 "initialResults 0"]
        checkbox_fill_is_idempotent [of "checkboxStep False" examplePage "[]" 4 0 "initialResults 0"]
  by (simp add: checkboxStep_def examplePage_def stepAction_def initialResults_def)

lemma stepIndexAt_append:
  "k < length tr \<Longrightarrow> stepIndexAt start (tr @ chunk) k = stepIndexAt start tr k"
  by (simp add: stepIndexAt_def)

lemma clicksReported_append_noclick:
  assumes "clicksReported pg fs start tr" and "\<forall>el. Click el \<notin> set chunk"
  shows "clicksReported pg fs start (tr @ chunk)"
  unfolding clicksReported_def
proof (intro allI impI)
  fix k el
  assume a: "k < length (tr @ chunk) \<and> (tr @ chunk) ! k = Click el"
  have "k < length tr"
  proof (rule ccontr)
    assume "\<not> k < length tr"
    with a have "(tr @ chunk) ! k = chunk ! (k - length tr)" "k - length tr < length chunk"
      by (auto simp: nth_append)
    with a assms(2) show False by (metis nth_mem)
  qed
  with a have "tr ! k = Click el" by (simp add: nth_append)
  with assms(1) \<open>k < length tr\<close> have
    "2 \<le> k \<and> start \<le> stepIndexAt start tr k \<and> stepIndexAt start tr k < length fs
        \<and> stepAction (fs ! stepIndexAt start tr k) = ''click''
        \<and> tr ! (k - 1) = SendReplayProgress (stepIndexAt start tr k)
        \<and> tr ! (k - 2) = WaitForElement (selector (fs ! stepIndexAt start tr k)) 3000
        \<and> waitResult pg (take (k - 1) tr) = Found el"
    unfolding clicksReported_def by blast
  moreover from \<open>k < length tr\<close> have "k - 1 < length tr" "k - 2 < length tr" by arith+
  ultimately
  show "2 \<le> k \<and> start \<le> stepIndexAt start (tr @ chunk) k
        \<and> stepIndexAt start (tr @ chunk) k < length fs
        \<and> stepAction (fs ! stepIndexAt start (tr @ chunk) k) = ''click''
        \<and> (tr @ chunk) ! (k - 1) = SendReplayProgress (stepIndexAt start (tr @ chunk) k)
        \<and> (tr @ chunk) ! (k - 2) = WaitForElement (selector (fs ! stepIndexAt start (tr @ chunk) k)) 3000
        \<and> waitResult pg (take (k - 1) (tr @ chunk)) = Found el"
    using \<open>k < length tr\<close> by (simp add: nth_append stepIndexAt_append)
qed

lemma clicksReported_snoc_click:
  assumes "clicksReported pg fs start tr" and "2 \<le> length tr"
    and "i = start + length (waitedSelectors tr) - 1"
    and "start \<le> i" and "i < length fs" and "stepAction (fs ! i) = ''click''"
    and "tr ! (length tr - 1) = SendReplayProgress i"
    and "tr ! (length tr - 2) = WaitForElement (selector (fs ! i)) 3000"
    and "waitResult pg (take (length tr - 1) tr) = Found el"
  shows "clicksReported pg fs start (tr @ [Click el])"
  unfolding clicksReported_def
proof (intro allI impI)
  fix k e
  assume a: "k < length (tr @ [Click el]) \<and> (tr @ [Click el]) ! k = Click e"
  show "2 \<le> k \<and> start \<le> stepIndexAt start (tr @ [Click el]) k
        \<and> stepIndexAt start (tr @ [Click el]) k < length fs
        \<and> stepAction (fs ! stepIndexAt start (tr @ [Click el]) k) = ''click''
        \<and> (tr @ [Click el]) ! (k - 1) = SendReplayProgress (stepIndexAt start (tr @ [Click el]) k)
        \<and> (tr @ [Click el]) ! (k - 2)
            = WaitForElement (selector (fs ! stepIndexAt start (tr @ [Click el]) k)) 3000
        \<and> waitResult pg (take (k - 1) (tr @ [Click el])) = Found e"
  proof (cases "k < length tr")
    case True
    with a have "tr ! k = Click e" by (simp add: nth_append)
    with assms(1) True have
      "2 \<le> k \<and> start \<le> stepIndexAt start tr k \<and> stepIndexAt start tr k < length fs
        \<and> stepAction (fs ! stepIndexAt start tr k) = ''click''
        \<and> tr ! (k - 1) = SendReplayProgress (stepIndexAt start tr k)
        \<and> tr ! (k - 2) = WaitForElement (selector (fs ! stepIndexAt start tr k)) 3000
        \<and> waitResult pg (take (k - 1) tr) = Found e"
      unfolding clicksReported_def by blast
    moreover from True have "k - 1 < length tr" "k - 2 < length tr" by arith+
    ultimately show ?thesis
      using True by (simp add: nth_append stepIndexAt_append)
  next
    case False
    with a have k: "k = length tr" by simp
    with a have e: "e = el" by simp
    have idx: "stepIndexAt start (tr @ [Click el]) (length tr) = i"
      using assms(3) by (simp add: stepIndexAt_def waitedSelectors_append)
    from assms(2) have b: "length tr - 1 < length tr" "length tr - 2 < length tr" by arith+
    from k e b assms(2,4-9) show ?thesis
      by (simp add: idx nth_append)
  qed
qed

lemma clicksReported_click:
  assumes "clicksReported pg fs start tr" and "length (waitedSelectors tr) = i - start"
    and "start \<le> i" and "i < length fs"
    and "stepAction (fs ! i) = ''click''"
    and "waitResult pg (tr @ [WaitForElement (selector (fs ! i)) 3000]) = Found el"
  shows "clicksReported pg fs start
           (tr @ [WaitForElement (selector (fs ! i)) 3000, SendReplayProgress i, Click el, WaitForDomSettle 300])"
proof -
  let ?W = "WaitForElement (selector (fs ! i)) 3000"
  have 1: "clicksReported pg fs start (tr @ [?W, SendReplayProgress i])"
    using clicksReported_append_noclick [OF assms(1), of "[?W, SendReplayProgress i]"]
    by simp
  have w: "i = start + length (waitedSelectors (tr @ [?W, SendReplayProgress i])) - 1"
    using assms(2,3) by (simp add: waitedSelectors_append)
  have 2: "clicksReported pg fs start ((tr @ [?W, SendReplayProgress i]) @ [Click el])"
    by (rule clicksReported_snoc_click [OF 1 _ w]) (use assms in \<open>simp_all add: nth_append\<close>)
  from clicksReported_append_noclick [OF 2, of "[WaitForDomSettle 300]"] show ?thesis by simp
qed

lemma clicksReported_replayStep:
  assumes "clicksReported pg fs start (snd s)" and "length (waitedSelectors (snd s)) = i - start"
    and "start \<le> i" and "i < length fs"
  shows "clicksReported pg fs start (logOf (replayStep pg (fs ! i) i s))"
proof -
  let ?W = "WaitForElement (selector (fs ! i)) 3000"
  show ?thesis
  proof (cases "waitResult pg (snd s @ [?W])")
    case NotFound
    then show ?thesis
      using clicksReported_append_noclick [OF assms(1), of "[?W]"]
      by (simp add: replayStep_def Let_def)
  next
    case (WaitRejects err)
    then show ?thesis
      using clicksReported_append_noclick [OF assms(1), of "[?W]"]
      by (simp add: replayStep_def Let_def)
  next
    case (Found el)
    show ?thesis
    proof (cases "stepAction (fs ! i) = ''click''")
      case True
      show ?thesis
      proof (cases "hasClickMethod pg el")
        case True
        with Found \<open>stepAction (fs ! i) = ''click''\<close>
          clicksReported_click [OF assms(1) assms(2) assms(3) assms(4) \<open>stepAction (fs ! i) = ''click''\<close> Found]
        show ?thesis
          by (simp add: replayStep_def Let_def)
      next
        case False
        with Found \<open>stepAction (fs ! i) = ''click''\<close>
          clicksReported_append_noclick [OF assms(1), of "[?W, SendReplayProgress i]"]
        show ?thesis
          by (simp add: replayStep_def Let_def)
      qed
    next
      case False
      show ?thesis
      proof (cases "setValue pg (snd s @ [?W]) el (step_value (fs ! i)) (step_type (fs ! i))")
        case (Inl err)
        with Found False clicksReported_append_noclick [OF assms(1), of "[?W]"] show ?thesis
          by (simp add: replayStep_def Let_def)
      next
        case (Inr calls)
        from setValue_calls [OF Inr]
        have "\<forall>e. Click e \<notin> set (?W # calls @ [WaitForDomSettle 150])" by simp
        from clicksReported_append_noclick [OF assms(1) this] Found False Inr show ?thesis
          by (simp add: replayStep_def Let_def)
      qed
    qed
  qed
qed

lemma clicksReported_replayLoop:
  "clicksReported pg fs start (snd s) \<Longrightarrow> length (waitedSelectors (snd s)) = i - start \<Longrightarrow>
     start \<le> i \<Longrightarrow> clicksReported pg fs start (logOf (replayLoop pg fs i s))"
proof (induction pg fs i s rule: replayLoop.induct)
  case (1 pg fs i s)
  show ?case
  proof (cases "i < length fs")
    case True
    note step = clicksReported_replayStep [OF "1.prems"(1) "1.prems"(2) "1.prems"(3) True]
    show ?thesis
    proof (cases "replayStep pg (fs ! i) i s")
      case (Inl thrown)
      with step True show ?thesis
        by (simp add: replayLoop.simps [of pg fs i])
    next
      case (Inr s1)
      with step have a: "clicksReported pg fs start (snd s1)" by simp
      from replayStep_returns [OF Inr] "1.prems"(2,3)
      have b: "length (waitedSelectors (snd s1)) = Suc i - start" by simp
      from "1.IH" [OF True Inr a b] "1.prems"(3)
      have "clicksReported pg fs start (logOf (replayLoop pg fs (Suc i) s1))" by simp
      with True Inr show ?thesis by (simp add: replayLoop.simps [of pg fs i])
    qed
  next
    case False
    with "1.prems"(1) show ?thesis
      by (simp add: replayLoop.simps [of pg fs i])
  qed
qed

text \<open>
  C8: a click step whose element is found sends the progress message carrying its own
  index \<open>i\<close> and only then clicks. In the log of a whole run, whether it returns or ends
  in an exception, every click comes directly after the progress message that carries the
  index of the pass in which the click is made; the step at that index is a click step,
  the message comes directly after the wait for that step's selector, and the element
  clicked is the one that wait resolved to. The waits of the log are those of the steps
  from the start index on, in order, one for each pass.
\<close>

theorem progress_is_sent_before_click:
  "(stepAction stp = ''click''
      \<and> waitResult pg (tr @ [WaitForElement (selector stp) 3000]) = Found el \<longrightarrow>
      replayStep pg stp i (res, tr) =
        (if hasClickMethod pg el then
           Inr (res\<lparr>clicked := clicked res + 1, lastIndex := i\<rparr>,
                tr @ [WaitForElement (selector stp) 3000, SendReplayProgress i, Click el,
                      WaitForDomSettle 300])
         else Inl (TypeError, tr @ [WaitForElement (selector stp) 3000, SendReplayProgress i])))
   \<and> prefix (waitedSelectors (logOf (replayScript pg flds start)))
        (map selector (drop start (sort_key order flds)))
   \<and> (\<forall>k e. k < length (logOf (replayScript pg flds start))
         \<and> logOf (replayScript pg flds start) ! k = Click e \<longrightarrow>
         2 \<le> k
         \<and> start \<le> stepIndexAt start (logOf (replayScript pg flds start)) k
         \<and> stepIndexAt start (logOf (replayScript pg flds start)) k < length flds
         \<and> stepAction (sort_key order flds ! stepIndexAt start (logOf (replayScript pg flds start)) k)
             = ''click''
         \<and> logOf (replayScript pg flds start) ! (k - 1)
             = SendReplayProgress (stepIndexAt start (logOf (replayScript pg flds start)) k)
         \<and> logOf (replayScript pg flds start) ! (k - 2)
             = WaitForElement
                 (selector (sort_key order flds ! stepIndexAt start (logOf (replayScript pg flds start)) k))
                 3000
         \<and> waitResult pg (take (k - 1) (logOf (replayScript pg flds start))) = Found e)"
proof (intro conjI)
  show "stepAction stp = ''click''
      \<and> waitResult pg (tr @ [WaitForElement (selector stp) 3000]) = Found el \<longrightarrow>
      replayStep pg stp i (res, tr) =
        (if hasClickMethod pg el then
           Inr (res\<lparr>clicked := clicked res + 1, lastIndex := i\<rparr>,
                tr @ [WaitForElement (selector stp) 3000, SendReplayProgress i, Click el,
                      WaitForDomSettle 300])
         else Inl (TypeError, tr @ [WaitForElement (selector stp) 3000, SendReplayProgress i]))"
    by (simp add: replayStep_def Let_def)
  show "prefix (waitedSelectors (logOf (replayScript pg flds start)))
        (map selector (drop start (sort_key order flds)))"
    using replayLoop_waits_in_order [of pg "sort_key order flds" start "(initialResults start, [])"]
    by (simp add: replayScript_def)
  have "clicksReported pg (sort_key order flds) start (snd (initialResults start, []))"
    by (simp add: clicksReported_def)
  from clicksReported_replayLoop [OF this, of start]
  have "clicksReported pg (sort_key order flds) start (logOf (replayScript pg flds start))"
    by (simp add: replayScript_def)
  then show "\<forall>k e. k < length (logOf (replayScript pg flds start))
         \<and> logOf (replayScript pg flds start) ! k = Click e \<longrightarrow>
         2 \<le> k
         \<and> start \<le> stepIndexAt start (logOf (replayScript pg flds start)) k
         \<and> stepIndexAt start (logOf (replayScript pg flds start)) k < length flds
         \<and> stepAction (sort_key order flds ! stepIndexAt start (logOf (replayScript pg flds start)) k)
             = ''click''
         \<and> logOf (replayScript pg flds start) ! (k - 1)
             = SendReplayProgress (stepIndexAt start (logOf (replayScript pg flds start)) k)
         \<and> logOf (replayScript pg flds start) ! (k - 2)
             = WaitForElement
                 (selector (sort_key order flds ! stepIndexAt start (logOf (replayScript pg flds start)) k))
                 3000
         \<and> waitResult pg (take (k - 1) (logOf (replayScript pg flds start))) = Found e"
    unfolding clicksReported_def by simp
qed

text \<open>
  A script that clicks \<open>#submit\<close> twice: the second click, at position 8 of the log, is made
  in pass 2 and comes after the message for index 2, not the one for index 1.
\<close>

lemma replay_two_submits:
  "replayScript examplePage [submitStep\<lparr>order := 3\<rparr>, submitStep, checkboxStep True] 0
     = Inr (\<lparr>filled = 1, clicked = 2, skipped = 0, warnings = [], lastIndex = 2\<rparr>,
        [WaitForElement ''#agree'' 3000, WaitForDomSettle 150,
         WaitForElement ''#submit'' 3000, SendReplayProgress 1, Click 5, WaitForDomSettle 300,
         WaitForElement ''#submit'' 3000, SendReplayProgress 2, Click 5, WaitForDomSettle 300])"
  by (simp add: replayScript_def checkboxStep_def submitStep_def examplePage_def replayStep_def
        Let_def initialResults_def stepAction_def setValue_def replayLoop.simps)

theorem progress_is_sent_before_click_witness:
  "logOf (replayScript examplePage [submitStep\<lparr>order := 3\<rparr>, submitStep, checkboxStep True] 0)
     = [WaitForElement ''#agree'' 3000, WaitForDomSettle 150,
        WaitForElement ''#submit'' 3000, SendReplayProgress 1, Click 5, WaitForDomSettle 300,
        WaitForElement ''#submit'' 3000, SendReplayProgress 2, Click 5, WaitForDomSettle 300]
   \<and> stepIndexAt 0 (logOf (replayScript examplePage
        [submitStep\<lparr>order := 3\<rparr>, submitStep, checkboxStep True] 0)) 8 = 2
   \<and> logOf (replayScript examplePage [submitStep\<lparr>order := 3\<rparr>, submitStep, checkboxStep True] 0) ! (8 - 1)
       = SendReplayProgress 2
   \<and> stepAction submitStep = ''click''
   \<and> waitResult examplePage ([] @ [WaitForElement (selector submitStep) 3000]) = Found 5
   \<and> replayStep examplePage submitStep 7 (initialResults 0, [])
       = Inr (\<lparr>filled = 0, clicked = 1, skipped = 0, warnings = [], lastIndex = 7\<rparr>,
              [WaitForElement ''#submit'' 3000, SendReplayProgress 7, Click 5, WaitForDomSettle 300])"
proof -
  let ?flds = "[submitStep\<lparr>order := 3\<rparr>, submitStep, checkboxStep True]"
  let ?log = "[WaitForElement ''#agree'' 3000, WaitForDomSettle 150,
        WaitForElement ''#submit'' 3000, SendReplayProgress 1, Click 5, WaitForDomSettle 300,
        WaitForElement ''#submit'' 3000, SendReplayProgress 2, Click 5, WaitForDomSettle 300]"
  note th = progress_is_sent_before_click [of submitStep examplePage "[]" 5 7 "initialResults 0" ?flds 0]
  have log: "logOf (replayScript examplePage ?flds 0) = ?log"
    by (simp add: replay_two_submits)
  have idx: "stepIndexAt 0 ?log 8 = 2"
    by (simp add: stepIndexAt_def)
  have act: "stepAction submitStep = ''click''"
    by (simp add: submitStep_def stepAction_def)
  have found: "waitResult examplePage ([] @ [WaitForElement (selector submitStep) 3000]) = Found 5"
    by (simp add: submitStep_def examplePage_def)
  from th act found have step: "replayStep examplePage submitStep 7 (initialResults 0, [])
       = Inr (\<lparr>filled = 0, clicked = 1, skipped = 0, warnings = [], lastIndex = 7\<rparr>,
              [WaitForElement ''#submit'' 3000, SendReplayProgress 7, Click 5, WaitForDomSettle 300])"
    by (simp add: submitStep_def examplePage_def initialResults_def)
  from th have "(8::nat) < length (logOf (replayScript examplePage ?flds 0))
         \<and> logOf (replayScript examplePage ?flds 0) ! 8 = Click 5 \<longrightarrow>
       logOf (replayScript examplePage ?flds 0) ! (8 - 1)
             = SendReplayProgress (stepIndexAt 0 (logOf (replayScript examplePage ?flds 0)) 8)"
    by blast
  with log idx have msg: "logOf (replayScript examplePage ?flds 0) ! (8 - 1) = SendReplayProgress 2"
    by simp
  from log idx msg act found step show ?thesis by simp
qed

lemma insort_key_map_deref:
  "map f (insort_key (\<lambda>r. g (f r)) x xs) = insort_key g (f x) (map f xs)"
  by (induction xs) simp_all

lemma sort_key_map_deref: "map f (sort_key (\<lambda>r. g (f r)) xs) = sort_key g (map f xs)"
  by (induction xs) (simp_all add: insort_key_map_deref)

text \<open>
  C10: \<open>replayScript\<close> leaves the caller's array and every step object as they were. The
  sort works on a newly allocated copy, no array that existed before the call is changed,
  and the outcome of the call depends only on the contents of the caller's array.
\<close>

theorem replay_leaves_caller_steps_unchanged:
  assumes "fieldsRef < nextArray h"
  shows "arrays (snd (replayScriptStore pg h fieldsRef start)) fieldsRef = arrays h fieldsRef
       \<and> objects (snd (replayScriptStore pg h fieldsRef start)) = objects h
       \<and> (\<forall>a. a < nextArray h \<longrightarrow> arrays (snd (replayScriptStore pg h fieldsRef start)) a = arrays h a)
       \<and> fst (replayScriptStore pg h fieldsRef start)
           = replayScript pg (map (objects h) (arrays h fieldsRef)) start"
  using assms
  by (simp add: replayScriptStore_def spreadCopy_def sortInPlace_def replayScript_def
        sort_key_map_deref)

theorem replay_leaves_caller_steps_unchanged_witness:
  "(0::nat) < nextArray exampleStore
   \<and> arrays exampleStore 0 = [11, 10]
   \<and> arrays (snd (replayScriptStore examplePage exampleStore 0 0)) 0 = [11, 10]
   \<and> objects (snd (replayScriptStore examplePage exampleStore 0 0)) = objects exampleStore
   \<and> arrays (snd (replayScriptStore examplePage exampleStore 0 0)) 1 = [10, 11]"
  using replay_leaves_caller_steps_unchanged [of 0 exampleStore examplePage 0]
  by (simp add: exampleStore_def replayScriptStore_def spreadCopy_def sortInPlace_def
        checkboxStep_def submitStep_def)

subsection \<open>Waiting for an element\<close>

lemma waitInv_start: "waitInv (waitForElement q hasBody)"
  by (simp add: waitInv_def waitForElement_def split: option.split sum.split)

lemma waitInv_deliver: "waitInv s \<Longrightarrow> waitInv (deliver e s)"
  by (cases e)
     (auto simp: waitInv_def observerCallback_def timeoutCallback_def resolvePromise_def
           split: option.splits if_splits)

lemma waitInv_deliverAll: "waitInv s \<Longrightarrow> waitInv (deliverAll es s)"
  by (induction es arbitrary: s) (simp_all add: waitInv_deliver)

lemma settled_deliver_stays:
  "waitInv s \<Longrightarrow> settled s = Some r \<Longrightarrow>
     settled (deliver e s) = Some r \<and> queries (deliver e s) = queries s"
  by (cases e)
     (auto simp: waitInv_def observerCallback_def timeoutCallback_def resolvePromise_def
           split: option.splits if_splits)

lemma settled_deliverAll_stays:
  "waitInv s \<Longrightarrow> settled s = Some r \<Longrightarrow>
     settled (deliverAll es s) = Some r \<and> queries (deliverAll es s) = queries s"
proof (induction es arbitrary: s)
  case Nil
  then show ?case by simp
next
  case (Cons e es)
  from Cons.prems have "waitInv (deliver e s)" "settled (deliver e s) = Some r"
    "queries (deliver e s) = queries s"
    by (simp_all add: waitInv_deliver settled_deliver_stays)
  with Cons.IH [of "deliver e s"] show ?case by simp
qed

lemma pending_deliverAll:
  "waitInv s \<Longrightarrow> settled s = None \<Longrightarrow> settled (deliverAll es s) = expectedOutcome es"
proof (induction es arbitrary: s)
  case Nil
  then show ?case by simp
next
  case (Cons e es)
  show ?case
  proof (cases e)
    case (Mutation q)
    show ?thesis
    proof (cases q)
      case None
      with Mutation Cons.prems have "waitInv (deliver e s)" "settled (deliver e s) = None"
        by (auto simp: waitInv_def observerCallback_def)
      with Cons.IH [of "deliver e s"] Mutation None show ?thesis by simp
    next
      case (Some el)
      with Mutation Cons.prems have "settled (deliver e s) = Some (Resolved (Some el))"
        by (auto simp: waitInv_def observerCallback_def resolvePromise_def)
      with settled_deliverAll_stays [OF waitInv_deliver [OF Cons.prems(1)], of e "Resolved (Some el)" es]
      show ?thesis using Mutation Some by simp
    qed
  next
    case TimerFires
    with Cons.prems have "settled (deliver e s) = Some (Resolved None)"
      by (auto simp: waitInv_def timeoutCallback_def resolvePromise_def)
    with settled_deliverAll_stays [OF waitInv_deliver [OF Cons.prems(1)], of e "Resolved None" es]
    show ?thesis using TimerFires by simp
  qed
qed

lemma expectedOutcome_timer: "TimerFires \<in> set es \<Longrightarrow> expectedOutcome es \<noteq> None"
  by (induction es rule: expectedOutcome.induct) auto

text \<open>
  C9 as stated fails for a string that is not a valid selector: the first
  \<open>querySelector\<close> throws, the promise is rejected, and whatever the page does afterwards
  (here an element appears, then the timeout elapses) it is resolved neither with the
  element nor with null. The same holds when \<open>document.body\<close> is null and
  \<open>observer.observe\<close> throws.
\<close>

theorem invalid_selector_rejects_counterexample:
  "settled (deliverAll [Mutation (Some 9), TimerFires] (waitForElement (Inl SyntaxError) True))
     = Some (Rejected SyntaxError)
   \<and> settled (deliverAll [Mutation (Some 9), TimerFires] (waitForElement (Inr None) False))
     = Some (Rejected TypeError)"
  by (simp add: waitForElement_def)

text \<open>
  C9 (amended): for every selector and timeout, whatever events the page produces, once
  the timer has fired the promise of \<open>waitForElement\<close> is settled. When the selector is
  not a valid selector, or no element matches at once and the document has no body, the
  promise is rejected at once; otherwise it resolves to the element found at once or at
  the first observed mutation before the expiry, and to null at the expiry. Whenever the
  promise is settled the observer is disconnected, on the path that found the element, on
  the timeout path and on the rejecting paths alike. After that no event changes the
  outcome, reconnects the observer or causes another \<open>querySelector\<close> call.
\<close>

theorem waitForElement_settles_and_disconnects:
  "(TimerFires \<in> set es \<longrightarrow> settled (deliverAll es (waitForElement q hasBody)) \<noteq> None)
   \<and> settled (deliverAll es (waitForElement q hasBody))
       = (case q of
            Inl err \<Rightarrow> Some (Rejected err)
          | Inr (Some el) \<Rightarrow> Some (Resolved (Some el))
          | Inr None \<Rightarrow> if hasBody then expectedOutcome es else Some (Rejected TypeError))
   \<and> (settled (deliverAll es (waitForElement q hasBody)) \<noteq> None \<longrightarrow>
        \<not> observing (deliverAll es (waitForElement q hasBody))
        \<and> \<not> observing (deliverAll es' (deliverAll es (waitForElement q hasBody)))
        \<and> settled (deliverAll es' (deliverAll es (waitForElement q hasBody)))
            = settled (deliverAll es (waitForElement q hasBody))
        \<and> queries (deliverAll es' (deliverAll es (waitForElement q hasBody)))
            = queries (deliverAll es (waitForElement q hasBody)))"
proof -
  let ?s = "deliverAll es (waitForElement q hasBody)"
  let ?expected = "case q of
            Inl err \<Rightarrow> Some (Rejected err)
          | Inr (Some el) \<Rightarrow> Some (Resolved (Some el))
          | Inr None \<Rightarrow> if hasBody then expectedOutcome es else Some (Rejected TypeError)"
  have inv: "waitInv ?s"
    by (rule waitInv_deliverAll [OF waitInv_start])
  have outcome: "settled ?s = ?expected"
  proof (cases "settled (waitForElement q hasBody)")
    case None
    then have q: "q = Inr None" "hasBody"
      by (auto simp: waitForElement_def split: sum.splits option.splits if_splits)
    from pending_deliverAll [OF waitInv_start None] q show ?thesis by simp
  next
    case (Some r)
    then have "?expected = Some r"
      by (auto simp: waitForElement_def split: sum.splits option.splits if_splits)
    with settled_deliverAll_stays [OF waitInv_start Some] show ?thesis by simp
  qed
  have timer: "TimerFires \<in> set es \<longrightarrow> settled ?s \<noteq> None"
    using outcome expectedOutcome_timer [of es]
    by (auto split: sum.splits option.splits if_splits)
  have after: "settled ?s \<noteq> None \<longrightarrow>
        \<not> observing ?s \<and> \<not> observing (deliverAll es' ?s)
        \<and> settled (deliverAll es' ?s) = settled ?s
        \<and> queries (deliverAll es' ?s) = queries ?s"
  proof
    assume "settled ?s \<noteq> None"
    then obtain r where r: "settled ?s = Some r" by blast
    from settled_deliverAll_stays [OF inv r, of es'] r
    have 1: "settled (deliverAll es' ?s) = settled ?s" "queries (deliverAll es' ?s) = queries ?s"
      by simp_all
    from inv r have 2: "\<not> observing ?s" by (simp add: waitInv_def)
    from waitInv_deliverAll [OF inv, of es'] 1 r have 3: "\<not> observing (deliverAll es' ?s)"
      by (simp add: waitInv_def)
    from 1 2 3 show "\<not> observing ?s \<and> \<not> observing (deliverAll es' ?s)
        \<and> settled (deliverAll es' ?s) = settled ?s
        \<and> queries (deliverAll es' ?s) = queries ?s" by simp
  qed
  from timer outcome after show ?thesis by blast
qed

theorem waitForElement_settles_and_disconnects_witness:
  "TimerFires \<in> set [Mutation None, TimerFires]
   \<and> settled (deliverAll [Mutation None, TimerFires] (waitForElement (Inr None) True))
       = Some (Resolved None)
   \<and> \<not> observing (deliverAll [Mutation None, TimerFires] (waitForElement (Inr None) True))
   \<and> settled (deliverAll [Mutation (Some 9)]
        (deliverAll [Mutation None, TimerFires] (waitForElement (Inr None) True)))
       = Some (Resolved None)
   \<and> queries (deliverAll [Mutation (Some 9)]
        (deliverAll [Mutation None, TimerFires] (waitForElement (Inr None) True)))
       = 2
   \<and> settled (deliverAll [Mutation None, Mutation (Some 9)] (waitForElement (Inr None) True))
       = Some (Resolved (Some 9))
   \<and> \<not> observing (deliverAll [Mutation None, Mutation (Some 9)] (waitForElement (Inr None) True))
   \<and> settled (deliverAll [TimerFires]
        (deliverAll [Mutation None, Mutation (Some 9)] (waitForElement (Inr None) True)))
       = Some (Resolved (Some 9))
   \<and> settled (deliverAll [TimerFires] (waitForElement (Inl SyntaxError) True))
       = Some (Rejected SyntaxError)
   \<and> \<not> observing (deliverAll [TimerFires] (waitForElement (Inl SyntaxError) True))"
  using waitForElement_settles_and_disconnects [of "[Mutation None, TimerFires]" "Inr None" True "[Mutation (Some 9)]"]
        waitForElement_settles_and_disconnects [of "[Mutation None, Mutation (Some 9)]" "Inr None" True "[TimerFires]"]
        waitForElement_settles_and_disconnects [of "[TimerFires]" "Inl SyntaxError" True "[]"]
  by (simp add: waitForElement_def observerCallback_def timeoutCallback_def resolvePromise_def)

subsection \<open>Selector generation\<close>

declare showNat.simps [simp del]
declare positionalParts.simps [simp del]

















text \<open>
  C6: for every element with a non-empty id, \<open>getSelector\<close> returns \<open>#\<close> followed by the
  CSS-escaped id, with \<open>fragile = false\<close>, whatever its \<open>name\<close> and \<open>data-qa\<close> attributes
  are and whatever the document's selector engine would answer.
\<close>

theorem id_tier_wins:
  assumes "nodeAt root el = Some e" and "el_id e \<noteq> []"
  shows "getSelector env root el = Inr (''#'' @ cssEscape env (el_id e), False)"
  using assms by (simp add: getSelector_def)

theorem id_tier_wins_witness:
  "nodeAt exampleDocument [1, 0, 2] = Some (Element ''INPUT'' ''email'' ''mail'' ''m'' [] ''text'' ''b'' False [])
   \<and> getSelector exampleEnv exampleDocument [1, 0, 2] = Inr (''#email'', False)"
proof -
  let ?input = "Element ''INPUT'' ''email'' ''mail'' ''m'' [] ''text'' ''b'' False []"
  have h1: "nodeAt exampleDocument [1, 0, 2] = Some ?input" by code_simp
  have h2: "el_id ?input \<noteq> []" by simp
  from id_tier_wins [OF h1 h2, of exampleEnv] h1 show ?thesis
    by (simp add: exampleEnv_def)
qed

subsection \<open>Step recorder\<close>

lemma firstIndex_None: "(firstIndex P xs = None) = (\<forall>x \<in> set xs. \<not> P x)"
  by (induction xs) simp_all

lemma firstIndex_Some:
  "firstIndex P xs = Some i \<Longrightarrow> i < length xs \<and> P (xs ! i) \<and> (\<forall>j < i. \<not> P (xs ! j))"
proof (induction xs arbitrary: i)
  case Nil
  then show ?case by simp
next
  case (Cons x xs)
  show ?case
  proof (cases "P x")
    case True
    with Cons.prems show ?thesis by simp
  next
    case False
    with Cons.prems obtain k where k: "firstIndex P xs = Some k" "i = Suc k" by auto
    from Cons.IH [OF k(1)] False k(2) show ?thesis
      by (auto simp: nth_Cons split: nat.splits)
  qed
qed

text \<open>
  What holds of the dedupe rule: as long as no click step in the buffer has the selector
  of the field, an input event updates the value of the first step with that selector in
  place and takes no new order number, or else appends a fill step with the next order.
\<close>

lemma onInput_dedupes_fills:
  assumes "recording st" and "nodeAt root target = Some e" and "isFormElement e"
    and "getSelector env root target = Inr (sel, frag)"
    and "\<forall>f \<in> set (capturedFields st). selector f = sel \<longrightarrow> action f = Some ''fill''"
  shows "\<exists>st'. onInput env lenv root target st = Inr st'
          \<and> (if \<exists>f \<in> set (capturedFields st). selector f = sel \<and> action f = Some ''fill''
             then (\<exists>i < length (capturedFields st).
                     selector (capturedFields st ! i) = sel
                     \<and> action (capturedFields st ! i) = Some ''fill''
                     \<and> capturedFields st' =
                         (capturedFields st)[i := (capturedFields st ! i)\<lparr>step_value := getValue e\<rparr>])
                  \<and> fieldOrder st' = fieldOrder st
             else capturedFields st' = capturedFields st @
                    [\<lparr>order = int (fieldOrder st + 1), action = Some ''fill'', selector = sel,
                      step_value = getValue e, step_type = Some (getFieldType e),
                      label = getLabel lenv root target, fragile = frag\<rparr>]
                  \<and> fieldOrder st' = fieldOrder st + 1)"
proof (cases "firstIndex (\<lambda>f. selector f = sel) (capturedFields st)")
  case None
  then have "\<not> (\<exists>f \<in> set (capturedFields st). selector f = sel \<and> action f = Some ''fill'')"
    by (auto simp: firstIndex_None)
  with None assms show ?thesis
    by (simp add: onInput_def Let_def)
next
  case (Some i)
  from firstIndex_Some [OF Some]
  have i: "i < length (capturedFields st)" "selector (capturedFields st ! i) = sel" by auto
  with assms(5) have fill: "action (capturedFields st ! i) = Some ''fill''"
    by (metis nth_mem)
  from i fill have ex: "\<exists>f \<in> set (capturedFields st). selector f = sel \<and> action f = Some ''fill''"
    by (metis nth_mem)
  from Some assms have "onInput env lenv root target st =
      Inr (st\<lparr>capturedFields := (capturedFields st)[i := (capturedFields st ! i)\<lparr>step_value := getValue e\<rparr>],
              lastCapturedLabel := orElse (getLabel lenv root target) sel\<rparr>)"
    by (simp add: onInput_def Let_def)
  with i fill ex show ?thesis by auto
qed

text \<open>
  Three input events on the field \<open>#email\<close>, with the values \<open>a\<close>, \<open>ab\<close> and \<open>abc\<close>, in a
  fresh recording: one fill step, with the last value and the order of the first capture.
\<close>

lemma three_inputs_one_fill:
  "andThen (andThen (onInput exampleEnv exampleLabels (documentWithEmail ''a'') [1, 0, 2]
                       (startRecording idleRecorder))
              (onInput exampleEnv exampleLabels (documentWithEmail ''ab'') [1, 0, 2]))
     (onInput exampleEnv exampleLabels (documentWithEmail ''abc'') [1, 0, 2])
   = Inr \<lparr>recording = True, fieldOrder = 1,
          capturedFields = [\<lparr>order = 1, action = Some ''fill'', selector = ''#email'',
            step_value = JStr ''abc'', step_type = Some ''text'', label = ''mail'', fragile = False\<rparr>],
          lastCapturedLabel = ''mail'',
          sentMessages = [FIELD_CAPTURED \<lparr>order = 1, action = Some ''fill'', selector = ''#email'',
            step_value = JStr ''a'', step_type = Some ''text'', label = ''mail'', fragile = False\<rparr>]\<rparr>"
  by code_simp

lemma click_on_go:
  "onClickCapture exampleEnv exampleLabels exampleDocument [1, 1] (startRecording idleRecorder)
     = Inr clickedRecorder"
  by code_simp

text \<open>
  C1 asks that an input event whose selector matches no fill step of the buffer appends a
  new fill step with the next order. The code looks for the first step with the selector
  whatever its action. After a click on the text area \<open>#go\<close> (a click target through its
  \<open>role="button"\<close>) the buffer holds the click step \<open>#go\<close> and no fill step; an input event
  on the text area then writes the typed value into the click step and appends nothing, so
  the fill is never recorded.
\<close>

theorem input_on_clicked_selector_records_no_fill:
  "capturedFields clickedRecorder = [goClickStep]
   \<and> action goClickStep = Some ''click''
   \<and> getSelector exampleEnv exampleDocument [1, 1] = Inr (''#go'', False)
   \<and> onInput exampleEnv exampleLabels exampleDocument [1, 1] clickedRecorder
       = Inr (clickedRecorder\<lparr>capturedFields := [goClickStep\<lparr>step_value := JStr ''hi''\<rparr>],
                              lastCapturedLabel := ''#go''\<rparr>)"
  by code_simp

end
